theory Spec2Isabelle
  imports Complex_Main "HOL-Library.AList"
begin

section \<open>Python values and exceptions\<close>

text \<open>
  The records the pipeline enriches are Python dictionaries whose values come from the
  database layer and from decoded JSON. A dictionary is an association list in insertion
  order with at most one entry per key; assignment \<open>d[k] = v\<close> is \<open>AList.update\<close>
  (replace in place, or append). Keys are the hashable values of JSON: strings, numbers
  and \<open>None\<close>. Python identifies the keys \<open>1\<close>, \<open>1.0\<close> and \<open>True\<close>, so a numeric key is
  its value. Floats are modelled as exact reals (IEEE rounding is not modelled).
\<close>

datatype pykey = KNone | KNum real | KStr string

datatype pyval =
    PNone
  | PBool bool
  | PInt int
  | PFloat real
  | PStr string
  | PList "pyval list"
  | PDict "(pykey \<times> pyval) list"

type_synonym dict = "(pykey \<times> pyval) list"

text \<open>Truth value testing (\<open>if x:\<close>, \<open>x or y\<close>, \<open>not x\<close>).\<close>

fun truthy :: "pyval \<Rightarrow> bool" where
  "truthy PNone = False"
| "truthy (PBool b) = b"
| "truthy (PInt i) = (i \<noteq> 0)"
| "truthy (PFloat x) = (x \<noteq> 0)"
| "truthy (PStr s) = (s \<noteq> [])"
| "truthy (PList xs) = (xs \<noteq> [])"
| "truthy (PDict kvs) = (kvs \<noteq> [])"

definition py_or :: "pyval \<Rightarrow> pyval \<Rightarrow> pyval" where
  "py_or a b = (if truthy a then a else b)"

text \<open>\<open>d.get(k)\<close> with the default \<open>None\<close>, and \<open>d.get(k, default)\<close>.\<close>

definition dict_get_or :: "dict \<Rightarrow> string \<Rightarrow> pyval \<Rightarrow> pyval" where
  "dict_get_or d k dflt = (case map_of d (KStr k) of None \<Rightarrow> dflt | Some v \<Rightarrow> v)"

definition dict_get :: "dict \<Rightarrow> string \<Rightarrow> pyval" where
  "dict_get d k = dict_get_or d k PNone"

definition dict_set :: "dict \<Rightarrow> string \<Rightarrow> pyval \<Rightarrow> dict" where
  "dict_set d k v = AList.update (KStr k) v d"

text \<open>
  Exceptions. Every exception the sources raise or receive from their libraries is an
  instance of \<open>Exception\<close>, which is what the handlers \<open>except Exception\<close> catch. The
  kind matters to the retry decorator only (it retries \<open>httpx.HTTPError\<close> and
  \<open>asyncio.TimeoutError\<close>); the string is \<open>str(e)\<close>.
\<close>

datatype exn_kind =
    HTTPError | TimeoutError | RetryError | RuntimeError | ValueError
  | TypeError | AttributeError | KeyError | IndexError | ZeroDivisionError | OtherError

datatype exn = Exn exn_kind string

fun str :: "exn \<Rightarrow> string" where
  "str (Exn k m) = m"

fun kind :: "exn \<Rightarrow> exn_kind" where
  "kind (Exn k m) = k"

section \<open>scrapers/base.py: results, session statistics, the retrying request\<close>

record ScraperResult =
  success :: bool
  data :: "dict option"
  error :: "string option"
  source_url :: pyval
  raw_response :: "pyval option"
  duration_ms :: int

text \<open>
  \<open>ScraperStats\<close>. The two timestamps \<open>start_time\<close> and \<open>end_time\<close> are wall-clock
  readings that no counter depends on; they are left out.
\<close>

record ScraperStats =
  total_requests :: int
  successful_requests :: int
  failed_requests :: int
  total_items_found :: int
  errors :: "string list"

definition new_stats :: ScraperStats where
  "new_stats = \<lparr>total_requests = 0, successful_requests = 0, failed_requests = 0,
     total_items_found = 0, errors = []\<rparr>"

text \<open>What \<open>response.json()\<close> gives is part of the response received.\<close>

record response =
  status_code :: int
  json :: "exn + pyval"

text \<open>
  The part of \<open>BaseScraper\<close> that a request touches: the statistics and whether
  \<open>_client\<close> is set (the \<open>client\<close> property raises \<open>RuntimeError\<close> when it is not).
\<close>

record scraper =
  scraper_stats :: ScraperStats
  client_open :: bool

definition new_scraper :: scraper where
  "new_scraper = \<lparr>scraper_stats = new_stats, client_open = True\<rparr>"

text \<open>
  One execution of the body of \<open>_make_request\<close>. The argument \<open>sent\<close> is what
  \<open>self.client.request(...)\<close> followed by \<open>response.raise_for_status()\<close> does on this
  attempt: a response, or the exception raised. \<open>rate_limiter.acquire()\<close> comes first;
  it only waits and stamps the limiter, and touches no counter.
\<close>

definition make_request_attempt :: "scraper \<Rightarrow> exn + response \<Rightarrow> (exn + response) \<times> scraper" where
  "make_request_attempt sc sent =
     (let st = scraper_stats sc;
          st1 = st\<lparr>total_requests := total_requests st + 1\<rparr>;
          r = (if client_open sc then sent
               else Inl (Exn RuntimeError ''Scraper must be used as async context manager''))
      in case r of
           Inr resp \<Rightarrow>
             (Inr resp, sc\<lparr>scraper_stats := st1\<lparr>successful_requests := successful_requests st1 + 1\<rparr>\<rparr>)
         | Inl e \<Rightarrow>
             (Inl e, sc\<lparr>scraper_stats := st1\<lparr>failed_requests := failed_requests st1 + 1,
                                                 errors := errors st1 @ [str e]\<rparr>\<rparr>))"

text \<open>
  The decorator \<open>@retry(retry=retry_if_exception_type((httpx.HTTPError,
  asyncio.TimeoutError)), stop=stop_after_attempt(3), wait=wait_exponential(...))\<close>:
  an exception of another type is raised at once; a retryable one leads to the next
  attempt, and after the third attempt to \<open>RetryError\<close> (the decorator is used without
  \<open>reraise\<close>). \<open>http n\<close> is what the \<open>n\<close>-th attempt meets on the wire. The waits between
  attempts change no state and are not modelled.
\<close>

definition retryable :: "exn \<Rightarrow> bool" where
  "retryable e = (kind e = HTTPError \<or> kind e = TimeoutError)"

function make_request_from :: "nat \<Rightarrow> (nat \<Rightarrow> exn + response) \<Rightarrow> scraper \<Rightarrow> (exn + response) \<times> scraper" where
  "make_request_from n http sc =
     (case make_request_attempt sc (http n) of
        (Inr resp, sc') \<Rightarrow> (Inr resp, sc')
      | (Inl e, sc') \<Rightarrow>
          if \<not> retryable e then (Inl e, sc')
          else if 3 \<le> n then (Inl (Exn RetryError ''RetryError''), sc')
          else make_request_from (Suc n) http sc')"
  by pat_completeness auto
termination
  by (relation "measure (\<lambda>(n, http, sc). 3 - n)") auto

declare make_request_from.simps [simp del]

definition make_request :: "(nat \<Rightarrow> exn + response) \<Rightarrow> scraper \<Rightarrow> (exn + response) \<times> scraper" where
  "make_request http sc = make_request_from 1 http sc"

text \<open>The number of attempts a call of \<open>_make_request\<close> makes (a count for the proofs).\<close>

function attempts_from :: "nat \<Rightarrow> (nat \<Rightarrow> exn + response) \<Rightarrow> scraper \<Rightarrow> nat" where
  "attempts_from n http sc =
     (case make_request_attempt sc (http n) of
        (Inr resp, sc') \<Rightarrow> 1
      | (Inl e, sc') \<Rightarrow>
          if \<not> retryable e then 1
          else if 3 \<le> n then 1
          else 1 + attempts_from (Suc n) http sc')"
  by pat_completeness auto
termination
  by (relation "measure (\<lambda>(n, http, sc). 3 - n)") auto

declare attempts_from.simps [simp del]

text \<open>The invariant of the session statistics that \<open>_make_request\<close> maintains.\<close>

definition stats_inv :: "ScraperStats \<Rightarrow> bool" where
  "stats_inv st =
     (total_requests st = successful_requests st + failed_requests st
      \<and> int (length (errors st)) = failed_requests st)"

section \<open>scrapers/base.py: the rate limiter\<close>

text \<open>
  \<open>RateLimiter\<close>. \<open>__init__\<close> divides \<open>60.0\<close> by the rate, which raises
  \<open>ZeroDivisionError\<close> for the rate \<open>0\<close>. The lock is not a field of the model: it makes
  the calls of \<open>acquire\<close> on one limiter run one after the other, which is how they are
  composed below.
\<close>

record RateLimiter =
  requests_per_minute :: int
  interval :: real
  last_request_time :: real

definition new_rate_limiter :: "int \<Rightarrow> exn + RateLimiter" where
  "new_rate_limiter rpm =
     (if rpm = 0 then Inl (Exn ZeroDivisionError ''float division by zero'')
      else Inr \<lparr>requests_per_minute = rpm, interval = 60 / of_int rpm, last_request_time = 0\<rparr>)"




text \<open>A limiter, new or used, that was constructed with the rate \<open>R\<close>.\<close>

definition configured :: "int \<Rightarrow> RateLimiter \<Rightarrow> bool" where
  "configured R rl = (R \<noteq> 0 \<and> requests_per_minute rl = R \<and> interval rl = 60 / of_int R)"

section \<open>ai/lead_finder.py: the AI lead finder and its cost tracking\<close>

text \<open>
  \<open>"haiku" in self.model.lower()\<close>: substring test on the lower-cased model identifier
  (model identifiers are ASCII).
\<close>

fun starts_with :: "string \<Rightarrow> string \<Rightarrow> bool" where
  "starts_with [] s = True"
| "starts_with (p # ps) [] = False"
| "starts_with (p # ps) (c # cs) = (p = c \<and> starts_with ps cs)"

fun contains :: "string \<Rightarrow> string \<Rightarrow> bool" where
  "contains p [] = (p = [])"
| "contains p (c # cs) = (starts_with p (c # cs) \<or> contains p cs)"

definition lower_char :: "char \<Rightarrow> char" where
  "lower_char c =
     (let n = (of_char c :: nat) in if 65 \<le> n \<and> n \<le> 90 then char_of (n + 32) else c)"

definition lower :: "string \<Rightarrow> string" where
  "lower s = map lower_char s"

text \<open>
  \<open>round(x, 6)\<close>: to the nearest multiple of \<open>10^-6\<close>, ties to the even one. The
  arithmetic of the cost estimate is that of the reals. Python computes it on binary
  floats: a quotient such as \<open>10 / 1_000_000\<close> is rounded to the nearest float, which can
  move a product off a tie and so change the last digit of a cost, and a token count
  beyond the range of the floats makes the division raise \<open>OverflowError\<close>. Neither is
  part of the model.
\<close>

definition round_half_even :: "real \<Rightarrow> int" where
  "round_half_even x =
     (let f = \<lfloor>x\<rfloor>; d = x - of_int f
      in if d < 1 / 2 then f else if 1 / 2 < d then f + 1 else if even f then f else f + 1)"

definition round6 :: "real \<Rightarrow> real" where
  "round6 x = of_int (round_half_even (x * 1000000)) / 1000000"

record AILeadFinder =
  api_key :: "string option"
  model :: string
  total_input_tokens :: int
  total_output_tokens :: int

definition new_finder :: "string option \<Rightarrow> string \<Rightarrow> AILeadFinder" where
  "new_finder key m = \<lparr>api_key = key, model = m, total_input_tokens = 0, total_output_tokens = 0\<rparr>"

definition estimate_cost :: "AILeadFinder \<Rightarrow> int \<Rightarrow> int \<Rightarrow> real" where
  "estimate_cost f input_tokens output_tokens =
     (if contains ''haiku'' (lower (model f))
      then round6 (of_int input_tokens / 1000000 * 0.25 + of_int output_tokens / 1000000 * 1.25)
      else round6 (of_int input_tokens / 1000000 * 3 + of_int output_tokens / 1000000 * 15))"

definition get_total_cost :: "AILeadFinder \<Rightarrow> real" where
  "get_total_cost f = estimate_cost f (total_input_tokens f) (total_output_tokens f)"

text \<open>
  What \<open>client.messages.create\<close> returns: the token usage and the text. \<open>body\<close> is the
  outcome of reading \<open>message.content[0].text\<close>, stripping a code fence and decoding the
  JSON (with the fallback dictionary of the \<open>JSONDecodeError\<close> handler): the decoded
  value, or the exception those lines raise (an empty \<open>content\<close>, for one).
\<close>

record message =
  input_tokens :: int
  output_tokens :: int
  body :: "exn + pyval"

text \<open>The dictionary \<open>_call_claude\<close> returns (without the wall-clock \<open>duration_ms\<close>).\<close>

record call_result =
  cr_data :: pyval
  cr_input_tokens :: int
  cr_output_tokens :: int

text \<open>
  \<open>_call_claude\<close>. The argument is what the API call does: it raises, or returns a
  message. The \<open>client\<close> property raises \<open>ValueError\<close> without an API key. The handler
  \<open>except Exception\<close> logs and raises again, so every exception leaves the function, and
  the token totals keep what was added before it.
\<close>

definition call_claude :: "AILeadFinder \<Rightarrow> exn + message \<Rightarrow> (exn + call_result) \<times> AILeadFinder" where
  "call_claude f api =
     (if api_key f = None \<or> api_key f = Some [] then
        (Inl (Exn ValueError ''Anthropic API key is required''), f)
      else case api of
        Inl e \<Rightarrow> (Inl e, f)
      | Inr m \<Rightarrow>
          (let f' = f\<lparr>total_input_tokens := total_input_tokens f + input_tokens m,
                      total_output_tokens := total_output_tokens f + output_tokens m\<rparr>
           in case body m of
                Inl e \<Rightarrow> (Inl e, f')
              | Inr result \<Rightarrow>
                  (Inr \<lparr>cr_data = result, cr_input_tokens = input_tokens m,
                        cr_output_tokens = output_tokens m\<rparr>, f')))"

text \<open>
  The dictionary \<open>AILeadFinder.enrich_lead\<close> returns. The prompt is formatted from the
  record with \<open>json.dumps\<close>, which does not raise on the values modelled here; then comes
  the one call of \<open>_call_claude\<close>. \<open>result["data"].get(...)\<close> raises \<open>AttributeError\<close> when
  the decoded JSON is not an object.
\<close>

record ai_result =
  enriched_data :: pyval
  alternate_emails :: pyval
  alternate_companies :: pyval
  validation_notes :: pyval
  confidence_score :: pyval
  summary :: pyval
  tokens_used :: int
  cost_usd :: real

definition ai_enrich_lead :: "AILeadFinder \<Rightarrow> exn + message \<Rightarrow> (exn + ai_result) \<times> AILeadFinder" where
  "ai_enrich_lead f api =
     (case call_claude f api of
        (Inl e, f') \<Rightarrow> (Inl e, f')
      | (Inr r, f') \<Rightarrow>
          (case cr_data r of
             PDict d \<Rightarrow>
               (Inr \<lparr>enriched_data = dict_get_or d ''enriched_data'' (PDict []),
                     alternate_emails = dict_get_or d ''alternate_emails'' (PList []),
                     alternate_companies = dict_get_or d ''alternate_companies'' (PList []),
                     validation_notes = dict_get_or d ''validation_notes'' (PDict []),
                     confidence_score = dict_get_or d ''confidence_score'' (PInt 0),
                     summary = dict_get_or d ''enrichment_summary'' (PStr []),
                     tokens_used = cr_input_tokens r + cr_output_tokens r,
                     cost_usd = estimate_cost f' (cr_input_tokens r) (cr_output_tokens r)\<rparr>, f')
           | _ \<Rightarrow> (Inl (Exn AttributeError ''object has no attribute get''), f')))"

text \<open>
  A sequence of calls made by one instance (each public method makes one call of
  \<open>_call_claude\<close>), and the usage of the calls that reached the token tracking.
\<close>

fun call_claude_seq :: "AILeadFinder \<Rightarrow> (exn + message) list \<Rightarrow> AILeadFinder" where
  "call_claude_seq f [] = f"
| "call_claude_seq f (api # apis) = call_claude_seq (snd (call_claude f api)) apis"

fun tracked :: "AILeadFinder \<Rightarrow> (exn + message) list \<Rightarrow> message list" where
  "tracked f [] = []"
| "tracked f (Inl e # apis) = tracked f apis"
| "tracked f (Inr m # apis) =
     (if api_key f = None \<or> api_key f = Some [] then [] else m # tracked f apis)"

section \<open>scrapers/ai_ark.py: the primary source\<close>

text \<open>
  The world outside the program, as far as one enrichment meets it:
  \<^item> \<open>ark_open\<close>: the exception, if any, raised while importing, constructing and entering
    \<open>AIArkScraper()\<close>;
  \<^item> \<open>ark_api_key\<close>: the configured key (\<open>Optional[str]\<close>);
  \<^item> \<open>ark_http payload n\<close>: what the \<open>n\<close>-th attempt of the POST with this payload meets;
  \<^item> \<open>ark_parse raw\<close>: \<open>parse_result(raw).to_dict()\<close>, the normalisation of one raw lead
    (field heuristics, a pluggable pure function), or the exception it raises;
  \<^item> \<open>linkedin url\<close>: what constructing and entering \<open>LinkedInScraper()\<close> and calling
    \<open>scrape_profile(url)\<close> does: it raises, returns \<open>None\<close>, or returns a result;
  \<^item> \<open>claude lead_data\<close>: what the API call for the enrichment prompt of this record does.
\<close>

record world =
  ark_open :: "exn option"
  ark_api_key :: pyval
  ark_http :: "pyval \<Rightarrow> nat \<Rightarrow> exn + response"
  ark_parse :: "pyval \<Rightarrow> exn + dict"
  linkedin :: "pyval \<Rightarrow> exn + ScraperResult option"
  claude :: "dict \<Rightarrow> exn + message"

definition key_val :: "pykey \<Rightarrow> pyval" where
  "key_val k = (case k of KNone \<Rightarrow> PNone | KNum x \<Rightarrow> PFloat x | KStr s \<Rightarrow> PStr s)"

text \<open>\<open>for x in v\<close>: the elements, or \<open>None\<close> when \<open>v\<close> is not iterable (\<open>TypeError\<close>).\<close>

definition py_iter :: "pyval \<Rightarrow> pyval list option" where
  "py_iter v =
     (case v of
        PList xs \<Rightarrow> Some xs
      | PDict kvs \<Rightarrow> Some (map (\<lambda>kv. key_val (fst kv)) kvs)
      | PStr s \<Rightarrow> Some (map (\<lambda>c. PStr [c]) s)
      | _ \<Rightarrow> None)"

definition failure :: "exn \<Rightarrow> ScraperResult" where
  "failure e = \<lparr>success = False, data = None, error = Some (str e), source_url = PNone,
     raw_response = None, duration_ms = 0\<rparr>"

definition add_if :: "dict \<Rightarrow> string \<Rightarrow> pyval \<Rightarrow> dict" where
  "add_if d k v = (if truthy v then dict_set d k v else d)"

text \<open>
  The payload \<open>scrape\<close> builds from its keyword arguments \<open>kw\<close>. A keyword that is not a
  parameter of \<open>scrape\<close> lands in \<open>**kwargs\<close> and is not read.
\<close>

definition ark_search_params :: "dict \<Rightarrow> dict" where
  "ark_search_params kw =
     add_if (add_if (add_if (add_if (add_if (add_if
       (dict_set [] ''leads_per_company'' (dict_get_or kw ''leads_per_company'' (PInt 3)))
       ''domains'' (dict_get kw ''company_domains''))
       ''company_names'' (dict_get kw ''company_names''))
       ''job_titles'' (dict_get kw ''job_titles''))
       ''industries'' (dict_get kw ''industries''))
       ''employee_range'' (dict_get kw ''employee_range''))
       ''locations'' (dict_get kw ''locations'')"

definition ark_leads :: "dict \<Rightarrow> pyval" where
  "ark_leads d =
     dict_get_or d ''results'' (dict_get_or d ''people'' (dict_get_or d ''data'' (PList [])))"

text \<open>
  The loop over the raw leads: a lead that parses becomes a successful result with its
  normalised data; one that raises is logged into \<open>errors\<close> and skipped.
\<close>

fun ark_parse_loop ::
  "(pyval \<Rightarrow> exn + dict) \<Rightarrow> pyval list \<Rightarrow> ScraperResult list \<Rightarrow> string list
     \<Rightarrow> ScraperResult list \<times> string list" where
  "ark_parse_loop parse [] results errs = (results, errs)"
| "ark_parse_loop parse (raw # raws) results errs =
     (case parse raw of
        Inl e \<Rightarrow> ark_parse_loop parse raws results (errs @ [str e])
      | Inr d \<Rightarrow>
          (case raw of
             PDict kvs \<Rightarrow>
               ark_parse_loop parse raws
                 (results @ [\<lparr>success = True, data = Some d, error = None,
                      source_url = dict_get kvs ''linkedin_url'', raw_response = Some raw,
                      duration_ms = 0\<rparr>]) errs
           | _ \<Rightarrow> ark_parse_loop parse raws results (errs @ [''object has no attribute get''])))"

definition ark_scrape :: "world \<Rightarrow> dict \<Rightarrow> scraper \<Rightarrow> (exn + ScraperResult list) \<times> scraper" where
  "ark_scrape w kw sc =
     (if \<not> truthy (ark_api_key w) then
        (Inl (Exn ValueError ''AI Ark API key is required''), sc)
      else
        case make_request (ark_http w (PDict (ark_search_params kw))) sc of
          (Inl e, sc1) \<Rightarrow> (Inr [failure e], sc1)
        | (Inr resp, sc1) \<Rightarrow>
            (case json resp of
               Inl e \<Rightarrow> (Inr [failure e], sc1)
             | Inr decoded \<Rightarrow>
                 (case decoded of
                    PDict d \<Rightarrow>
                      (case py_iter (ark_leads d) of
                         None \<Rightarrow> (Inr [failure (Exn TypeError ''object is not iterable'')], sc1)
                       | Some raws \<Rightarrow>
                           (case ark_parse_loop (ark_parse w) raws [] (errors (scraper_stats sc1)) of
                              (results, errs) \<Rightarrow>
                                (Inr results,
                                 sc1\<lparr>scraper_stats := (scraper_stats sc1)
                                   \<lparr>errors := errs, total_items_found := int (length results)\<rparr>\<rparr>)))
                  | _ \<Rightarrow> (Inr [failure (Exn AttributeError ''object has no attribute get'')], sc1))))"

text \<open>
  \<open>enrich_company\<close> passes \<open>domains=[domain]\<close> or \<open>company_names=[company_name]\<close> on to
  \<open>scrape\<close>.
\<close>

definition enrich_company ::
  "world \<Rightarrow> pyval \<Rightarrow> pyval \<Rightarrow> int \<Rightarrow> scraper \<Rightarrow> (exn + ScraperResult list) \<times> scraper" where
  "enrich_company w domain company_name leads_count sc =
     (if \<not> truthy domain \<and> \<not> truthy company_name then
        (Inl (Exn ValueError ''Either domain or company_name is required''), sc)
      else
        ark_scrape w
          (if truthy domain
           then dict_set (dict_set [] ''leads_per_company'' (PInt leads_count))
                  ''domains'' (PList [domain])
           else dict_set (dict_set [] ''leads_per_company'' (PInt leads_count))
                  ''company_names'' (PList [company_name]))
          sc)"

section \<open>ai/lead_finder.py: the waterfall enrichment pipeline\<close>

text \<open>\<open>d.update(other)\<close> for a dictionary \<open>other\<close>: its items are assigned in order.\<close>

definition dict_update :: "dict \<Rightarrow> dict \<Rightarrow> dict" where
  "dict_update d other = fold (\<lambda>kv acc. AList.update (fst kv) (snd kv) acc) other d"

text \<open>
  \<open>d.update(v)\<close> for any decoded JSON value \<open>v\<close>. A value that is not a dictionary is read
  as a sequence of key/value pairs; the pairs before the first bad element are assigned
  before the exception is raised. The result is the dictionary afterwards and the
  exception, if any.
\<close>

definition key_of :: "pyval \<Rightarrow> pykey option" where
  "key_of v =
     (case v of
        PNone \<Rightarrow> Some KNone
      | PBool b \<Rightarrow> Some (KNum (if b then 1 else 0))
      | PInt i \<Rightarrow> Some (KNum (of_int i))
      | PFloat x \<Rightarrow> Some (KNum x)
      | PStr s \<Rightarrow> Some (KStr s)
      | _ \<Rightarrow> None)"

definition pair_of :: "pyval \<Rightarrow> exn + (pykey \<times> pyval)" where
  "pair_of x =
     (case x of
        PList xs \<Rightarrow>
          (case xs of
             [k, v] \<Rightarrow>
               (case key_of k of
                  None \<Rightarrow> Inl (Exn TypeError ''unhashable type'')
                | Some kk \<Rightarrow> Inr (kk, v))
           | _ \<Rightarrow> Inl (Exn ValueError ''dictionary update sequence element has the wrong length''))
      | PStr s \<Rightarrow>
          (case s of
             [a, b] \<Rightarrow> Inr (KStr [a], PStr [b])
           | _ \<Rightarrow> Inl (Exn ValueError ''dictionary update sequence element has the wrong length''))
      | PDict kvs \<Rightarrow>
          (case kvs of
             [kv1, kv2] \<Rightarrow> Inr (fst kv1, key_val (fst kv2))
           | _ \<Rightarrow> Inl (Exn ValueError ''dictionary update sequence element has the wrong length''))
      | _ \<Rightarrow> Inl (Exn TypeError ''cannot convert dictionary update sequence element to a sequence''))"

fun update_seq :: "dict \<Rightarrow> pyval list \<Rightarrow> dict \<times> exn option" where
  "update_seq d [] = (d, None)"
| "update_seq d (x # xs) =
     (case pair_of x of
        Inl e \<Rightarrow> (d, Some e)
      | Inr kv \<Rightarrow> update_seq (AList.update (fst kv) (snd kv) d) xs)"

definition py_update :: "dict \<Rightarrow> pyval \<Rightarrow> dict \<times> exn option" where
  "py_update d v =
     (case v of
        PDict other \<Rightarrow> (dict_update d other, None)
      | PList xs \<Rightarrow> update_seq d xs
      | PStr s \<Rightarrow> update_seq d (map (\<lambda>c. PStr [c]) s)
      | _ \<Rightarrow> (d, Some (Exn TypeError ''object is not iterable'')))"

text \<open>
  The orchestrator: its counters (\<open>self.stats\<close>), its AI finder, the store of the
  dictionary objects it is handed and creates (an address is an index of \<open>heap\<close>), and
  the trace of the source calls it has made.
\<close>

datatype source_call = AIArk | LinkedIn | AIFinder

record pipeline_stats =
  total_enriched :: int
  ai_ark_hits :: int
  linkedin_hits :: int
  ai_finder_hits :: int
  failed :: int
  total_cost :: real

record pipeline =
  stats :: pipeline_stats
  ai_finder :: AILeadFinder
  heap :: "pyval list"
  calls :: "source_call list"

definition new_pipeline :: "AILeadFinder \<Rightarrow> pyval list \<Rightarrow> pipeline" where
  "new_pipeline f h =
     \<lparr>stats = \<lparr>total_enriched = 0, ai_ark_hits = 0, linkedin_hits = 0, ai_finder_hits = 0,
         failed = 0, total_cost = 0\<rparr>,
      ai_finder = f, heap = h, calls = []\<rparr>"

definition deref :: "pipeline \<Rightarrow> nat \<Rightarrow> pyval" where
  "deref p a = (if a < length (heap p) then heap p ! a else PNone)"

definition alloc :: "pyval \<Rightarrow> pipeline \<Rightarrow> nat \<times> pipeline" where
  "alloc v p = (length (heap p), p\<lparr>heap := heap p @ [v]\<rparr>)"

definition store :: "nat \<Rightarrow> pyval \<Rightarrow> pipeline \<Rightarrow> pipeline" where
  "store a v p = p\<lparr>heap := (heap p)[a := v]\<rparr>"

definition the_dict :: "pyval \<Rightarrow> dict" where
  "the_dict v = (case v of PDict d \<Rightarrow> d | _ \<Rightarrow> [])"

text \<open>The local variables of \<open>enrich_lead\<close>: \<open>enriched\<close> is a reference.\<close>

record locals =
  enriched :: nat
  source :: "string option"
  cost :: real

definition no_source :: "locals \<Rightarrow> bool" where
  "no_source l = (source l = None \<or> source l = Some [])"

text \<open>Step 1 of \<open>enrich_lead\<close>: AI Ark, inside \<open>try ... except Exception\<close>.\<close>

definition try_ai_ark :: "world \<Rightarrow> bool \<Rightarrow> nat \<Rightarrow> locals \<Rightarrow> pipeline \<Rightarrow> locals \<times> pipeline" where
  "try_ai_ark w use_ai_ark lead_data l p =
     (let company_name = dict_get (the_dict (deref p lead_data)) ''company_name'';
          company_domain = dict_get (the_dict (deref p lead_data)) ''company_domain''
      in if use_ai_ark \<and> truthy (py_or company_name company_domain) then
           (case ark_open w of
              Some e \<Rightarrow> (l, p)
            | None \<Rightarrow>
                (let p1 = p\<lparr>calls := calls p @ [AIArk]\<rparr>
                 in case fst (enrich_company w company_domain company_name 1 new_scraper) of
                      Inl e \<Rightarrow> (l, p1)
                    | Inr results \<Rightarrow>
                        if results \<noteq> [] \<and> success (hd results) then
                          (case data (hd results) of
                             None \<Rightarrow> (l, p1)
                           | Some d \<Rightarrow>
                               (let p2 = store (enriched l)
                                      (PDict (dict_update (the_dict (deref p1 (enriched l))) d)) p1
                                in (l\<lparr>source := Some ''ai_ark''\<rparr>,
                                    p2\<lparr>stats := (stats p2)
                                         \<lparr>ai_ark_hits := ai_ark_hits (stats p2) + 1\<rparr>\<rparr>)))
                        else (l, p1)))
         else (l, p))"

text \<open>Step 2: LinkedIn, when no source has answered and the record has a profile URL.\<close>

definition try_linkedin :: "world \<Rightarrow> bool \<Rightarrow> nat \<Rightarrow> locals \<Rightarrow> pipeline \<Rightarrow> locals \<times> pipeline" where
  "try_linkedin w use_linkedin lead_data l p =
     (if no_source l \<and> use_linkedin then
        (let linkedin_url = dict_get (the_dict (deref p lead_data)) ''linkedin_url''
         in if truthy linkedin_url then
              (let p1 = p\<lparr>calls := calls p @ [LinkedIn]\<rparr>
               in case linkedin w linkedin_url of
                    Inl e \<Rightarrow> (l, p1)
                  | Inr None \<Rightarrow> (l, p1)
                  | Inr (Some result) \<Rightarrow>
                      if success result then
                        (case data result of
                           None \<Rightarrow> (l, p1)
                         | Some d \<Rightarrow>
                             (let p2 = store (enriched l)
                                    (PDict (dict_update (the_dict (deref p1 (enriched l))) d)) p1
                              in (l\<lparr>source := Some ''linkedin''\<rparr>,
                                  p2\<lparr>stats := (stats p2)
                                       \<lparr>linkedin_hits := linkedin_hits (stats p2) + 1\<rparr>\<rparr>)))
                      else (l, p1))
            else (l, p))
      else (l, p))"

text \<open>Step 3: the AI finder as the last resort.\<close>

definition try_ai_finder :: "world \<Rightarrow> bool \<Rightarrow> nat \<Rightarrow> locals \<Rightarrow> pipeline \<Rightarrow> locals \<times> pipeline" where
  "try_ai_finder w use_ai_finder lead_data l p =
     (if no_source l \<and> use_ai_finder then
        (let p1 = p\<lparr>calls := calls p @ [AIFinder]\<rparr>;
             r = ai_enrich_lead (ai_finder p1) (claude w (the_dict (deref p1 lead_data)));
             p2 = p1\<lparr>ai_finder := snd r\<rparr>
         in case fst r of
              Inl e \<Rightarrow> (l, p2)
            | Inr result \<Rightarrow>
                if truthy (enriched_data result) then
                  (let u = py_update (the_dict (deref p2 (enriched l))) (enriched_data result);
                       p3 = store (enriched l) (PDict (fst u)) p2
                   in case snd u of
                        Some e \<Rightarrow> (l, p3)
                      | None \<Rightarrow>
                          (let p4 = store (enriched l)
                                 (PDict (dict_set (dict_set (dict_set (the_dict (deref p3 (enriched l)))
                                    ''alternate_emails'' (alternate_emails result))
                                    ''alternate_companies'' (alternate_companies result))
                                    ''ai_reasoning'' (summary result))) p3
                           in (l\<lparr>source := Some ''ai_enriched'', cost := cost_usd result\<rparr>,
                               p4\<lparr>stats := (stats p4)
                                    \<lparr>ai_finder_hits := ai_finder_hits (stats p4) + 1,
                                     total_cost := total_cost (stats p4) + cost_usd result\<rparr>\<rparr>)))
                else (l, p2))
      else (l, p))"

text \<open>The end of \<open>enrich_lead\<close>: the counters and the two bookkeeping fields.\<close>

definition track_results :: "locals \<Rightarrow> pipeline \<Rightarrow> pipeline" where
  "track_results l p =
     (case source l of
        Some (c # cs) \<Rightarrow>
          (let p1 = p\<lparr>stats := (stats p)\<lparr>total_enriched := total_enriched (stats p) + 1\<rparr>\<rparr>;
               p2 = store (enriched l)
                      (PDict (dict_set (the_dict (deref p1 (enriched l)))
                         ''enrichment_source'' (PStr (c # cs)))) p1
           in store (enriched l)
                (PDict (dict_set (the_dict (deref p2 (enriched l)))
                   ''enrichment_cost'' (PFloat (cost l)))) p2)
      | _ \<Rightarrow>
          (let p1 = p\<lparr>stats := (stats p)\<lparr>failed := failed (stats p) + 1\<rparr>\<rparr>
           in store (enriched l)
                (PDict (dict_set (the_dict (deref p1 (enriched l))) ''enrichment_source'' PNone)) p1))"

text \<open>
  \<open>enrich_lead\<close>. \<open>lead_data\<close> is the address of the caller's record. On an object that is
  not a dictionary, \<open>lead_data.copy()\<close> or \<open>lead_data.get\<close> raises \<open>AttributeError\<close>
  outside every handler. The result is the address of the outcome, or the exception.
\<close>

definition enrich_lead ::
  "world \<Rightarrow> bool \<Rightarrow> bool \<Rightarrow> bool \<Rightarrow> nat \<Rightarrow> pipeline \<Rightarrow> (exn + nat) \<times> pipeline" where
  "enrich_lead w use_ai_ark use_linkedin use_ai_finder lead_data p =
     (case deref p lead_data of
        PDict d \<Rightarrow>
          (case alloc (PDict d) p of
             (e, p0) \<Rightarrow>
               (case try_ai_ark w use_ai_ark lead_data \<lparr>enriched = e, source = None, cost = 0\<rparr> p0 of
                  (l1, p1) \<Rightarrow>
                    (case try_linkedin w use_linkedin lead_data l1 p1 of
                       (l2, p2) \<Rightarrow>
                         (case try_ai_finder w use_ai_finder lead_data l2 p2 of
                            (l3, p3) \<Rightarrow> (Inr (enriched l3), track_results l3 p3)))))
      | _ \<Rightarrow> (Inl (Exn AttributeError ''object has no attribute get''), p))"

text \<open>
  \<open>enrich_leads_batch\<close>. Each task takes the semaphore, runs \<open>enrich_lead\<close> with the
  default toggles and releases it; \<open>asyncio.gather\<close> returns the results by position, or
  raises the first exception a task raises. \<open>asyncio.Semaphore\<close> refuses a negative
  value; with the value \<open>0\<close> no task ever gets the semaphore, so a batch that has a task
  never returns (\<open>None\<close>). The tasks run to completion one after the other in the order
  \<open>schedule\<close>, a list of positions; a position that is never run leaves its task
  unfinished.
\<close>

fun run_tasks ::
  "world \<Rightarrow> nat list \<Rightarrow> nat list \<Rightarrow> nat option list \<Rightarrow> pipeline
     \<Rightarrow> (exn + nat option list) \<times> pipeline" where
  "run_tasks w leads [] slots p = (Inr slots, p)"
| "run_tasks w leads (i # schedule) slots p =
     (if i < length leads \<and> slots ! i = None then
        (case enrich_lead w True True True (leads ! i) p of
           (Inl e, p') \<Rightarrow> (Inl e, p')
         | (Inr b, p') \<Rightarrow> run_tasks w leads schedule (slots[i := Some b]) p')
      else run_tasks w leads schedule slots p)"

definition enrich_leads_batch ::
  "world \<Rightarrow> nat list \<Rightarrow> int \<Rightarrow> nat list \<Rightarrow> pipeline \<Rightarrow> ((exn + nat list) \<times> pipeline) option" where
  "enrich_leads_batch w leads concurrency schedule p =
     (if concurrency < 0 then
        Some (Inl (Exn ValueError ''Semaphore initial value must be >= 0''), p)
      else if leads = [] then Some (Inr [], p)
      else if concurrency = 0 then None
      else
        case run_tasks w leads schedule (replicate (length leads) None) p of
          (Inl e, p') \<Rightarrow> Some (Inl e, p')
        | (Inr slots, p') \<Rightarrow>
            if list_all (\<lambda>s. s \<noteq> None) slots then Some (Inr (map the slots), p') else None)"

section \<open>What one enrichment observes of its sources\<close>

text \<open>
  Names for the conditions of the waterfall, read off \<open>enrich_lead\<close>: when a source is
  eligible for a record \<open>d\<close>, what its call does, and the payload it contributes when it
  answers with \<open>success=True\<close>.
\<close>

definition ark_eligible :: "bool \<Rightarrow> dict \<Rightarrow> bool" where
  "ark_eligible use_ai_ark d =
     (use_ai_ark \<and> truthy (py_or (dict_get d ''company_name'') (dict_get d ''company_domain'')))"

definition ark_call :: "world \<Rightarrow> dict \<Rightarrow> exn + ScraperResult list" where
  "ark_call w d =
     fst (enrich_company w (dict_get d ''company_domain'') (dict_get d ''company_name'') 1
            new_scraper)"

definition ark_payload :: "world \<Rightarrow> bool \<Rightarrow> dict \<Rightarrow> dict option" where
  "ark_payload w use_ai_ark d =
     (if ark_eligible use_ai_ark d \<and> ark_open w = None then
        (case ark_call w d of
           Inl e \<Rightarrow> None
         | Inr results \<Rightarrow>
             if results \<noteq> [] \<and> success (hd results) then data (hd results) else None)
      else None)"

definition linkedin_eligible :: "bool \<Rightarrow> dict \<Rightarrow> bool" where
  "linkedin_eligible use_linkedin d = (use_linkedin \<and> truthy (dict_get d ''linkedin_url''))"

definition linkedin_call :: "world \<Rightarrow> dict \<Rightarrow> exn + ScraperResult option" where
  "linkedin_call w d = linkedin w (dict_get d ''linkedin_url'')"

definition linkedin_payload :: "world \<Rightarrow> bool \<Rightarrow> dict \<Rightarrow> dict option" where
  "linkedin_payload w use_linkedin d =
     (if linkedin_eligible use_linkedin d then
        (case linkedin_call w d of
           Inl e \<Rightarrow> None
         | Inr None \<Rightarrow> None
         | Inr (Some result) \<Rightarrow> if success result then data result else None)
      else None)"

definition ai_call :: "world \<Rightarrow> AILeadFinder \<Rightarrow> dict \<Rightarrow> exn + ai_result" where
  "ai_call w f d = fst (ai_enrich_lead f (claude w d))"


text \<open>
  A source misses when its call raises, returns nothing, returns \<open>success=False\<close>, or
  returns no payload.
\<close>

definition ark_misses :: "world \<Rightarrow> dict \<Rightarrow> bool" where
  "ark_misses w d =
     (case ark_open w of
        Some e \<Rightarrow> True
      | None \<Rightarrow>
          (case ark_call w d of
             Inl e \<Rightarrow> True
           | Inr results \<Rightarrow>
               results = [] \<or> \<not> success (hd results) \<or> data (hd results) = None))"

definition linkedin_misses :: "world \<Rightarrow> dict \<Rightarrow> bool" where
  "linkedin_misses w d =
     (case linkedin_call w d of
        Inl e \<Rightarrow> True
      | Inr None \<Rightarrow> True
      | Inr (Some result) \<Rightarrow> \<not> success result \<or> data result = None)"

definition ai_finder_misses :: "world \<Rightarrow> AILeadFinder \<Rightarrow> dict \<Rightarrow> bool" where
  "ai_finder_misses w f d =
     (case ai_call w f d of
        Inl e \<Rightarrow> True
      | Inr result \<Rightarrow> \<not> truthy (enriched_data result))"

text \<open>
  What a step of \<open>enrich_lead\<close> may change in the store: the object at one address. The
  finder keeps its key and model.
\<close>

definition frame_ok :: "nat \<Rightarrow> pipeline \<Rightarrow> pipeline \<Rightarrow> bool" where
  "frame_ok e p p' =
     (length (heap p') = length (heap p)
      \<and> (\<exists>v. heap p' = (heap p)[e := v])
      \<and> api_key (ai_finder p') = api_key (ai_finder p)
      \<and> model (ai_finder p') = model (ai_finder p))"


text \<open>
  The source calls one enrichment of the record \<open>d\<close> makes, in order: AI Ark when it is
  attempted, LinkedIn when AI Ark contributed nothing and LinkedIn is eligible, the AI
  finder when neither contributed and it is enabled.
\<close>

definition waterfall_calls :: "world \<Rightarrow> bool \<Rightarrow> bool \<Rightarrow> bool \<Rightarrow> dict \<Rightarrow> source_call list" where
  "waterfall_calls w use_ai_ark use_linkedin use_ai_finder d =
     (if ark_eligible use_ai_ark d \<and> ark_open w = None then [AIArk] else [])
     @ (if ark_payload w use_ai_ark d = None \<and> linkedin_eligible use_linkedin d
        then [LinkedIn] else [])
     @ (if ark_payload w use_ai_ark d = None \<and> linkedin_payload w use_linkedin d = None
           \<and> use_ai_finder
        then [AIFinder] else [])"

text \<open>
  The state of a run of \<open>enrich_lead\<close> on the record \<open>d\<close> between two steps: \<open>enriched\<close>
  is the address \<open>n\<close> of a dictionary that has every key of \<open>d\<close>, and \<open>source\<close> is unset
  or names a source.
\<close>

definition run_ok :: "dict \<Rightarrow> nat \<Rightarrow> locals \<Rightarrow> pipeline \<Rightarrow> bool" where
  "run_ok d n l q =
     (enriched l = n \<and> n < length (heap q)
      \<and> (\<exists>e. heap q ! n = PDict e \<and> fst ` set d \<subseteq> fst ` set e)
      \<and> (source l = None \<or> source l = Some ''ai_ark'' \<or> source l = Some ''linkedin''
          \<or> source l = Some ''ai_enriched''))"

text \<open>
  Two runs of \<open>enrich_lead\<close> on the same record \<open>d\<close>, in two stores, are in step: the
  record is at \<open>a\<close> in one store and at \<open>b\<close> in the other, the local variables agree, the
  two objects under construction are equal, and the finders have the same key and model.
\<close>

definition in_step ::
  "dict \<Rightarrow> nat \<Rightarrow> nat \<Rightarrow> locals \<Rightarrow> pipeline \<Rightarrow> locals \<Rightarrow> pipeline \<Rightarrow> bool" where
  "in_step d a b l s l' s' =
     (source l = source l' \<and> cost l = cost l'
      \<and> enriched l < length (heap s) \<and> enriched l' < length (heap s')
      \<and> heap s ! enriched l = heap s' ! enriched l'
      \<and> a \<noteq> enriched l \<and> b \<noteq> enriched l'
      \<and> a < length (heap s) \<and> heap s ! a = PDict d
      \<and> b < length (heap s') \<and> heap s' ! b = PDict d
      \<and> api_key (ai_finder s) = api_key (ai_finder s')
      \<and> model (ai_finder s) = model (ai_finder s'))"

text \<open>
  The outcome of enriching, with the default toggles, the record at an address of a
  store: the content of the record \<open>enrich_lead\<close> returns.
\<close>

definition outcome :: "world \<Rightarrow> pipeline \<Rightarrow> nat \<Rightarrow> pyval" where
  "outcome w p lead_data =
     (case enrich_lead w True True True lead_data p of
        (Inr b, p') \<Rightarrow> deref p' b
      | (Inl e, p') \<Rightarrow> PNone)"

text \<open>
  The state of a batch started in the state \<open>p\<close>, when the tasks at the positions \<open>done\<close>
  have completed: the store of \<open>p\<close> is a prefix of the current store, the finder has its
  key and model, each completed position holds the address of its outcome, and the other
  positions are empty.
\<close>

definition batch_inv ::
  "world \<Rightarrow> pipeline \<Rightarrow> nat list \<Rightarrow> nat set \<Rightarrow> nat option list \<Rightarrow> pipeline \<Rightarrow> bool" where
  "batch_inv w p leads done slots q =
     (length slots = length leads
      \<and> length (heap p) \<le> length (heap q)
      \<and> take (length (heap p)) (heap q) = heap p
      \<and> api_key (ai_finder q) = api_key (ai_finder p)
      \<and> model (ai_finder q) = model (ai_finder p)
      \<and> (\<forall>i < length leads.
            if i \<in> done
            then \<exists>b. slots ! i = Some b \<and> b < length (heap q)
                   \<and> heap q ! b = outcome w p (leads ! i)
            else slots ! i = None))"

section \<open>Concrete worlds\<close>

text \<open>
  The record \<open>{company_name: "Acme Corp", company_domain: "acme.com"}\<close> with a profile
  URL, in a store of its own, and a second store that also holds \<open>None\<close> and a record
  without any identity hint.
\<close>

definition acme :: dict where
  "acme = [(KStr ''company_name'', PStr ''Acme Corp''), (KStr ''company_domain'', PStr ''acme.com''),
           (KStr ''linkedin_url'', PStr ''https://www.linkedin.com/in/jane'')]"

definition acme_pipeline :: pipeline where
  "acme_pipeline = new_pipeline (new_finder (Some ''key'') ''claude-3-sonnet-20240229'') [PDict acme]"

definition mixed_pipeline :: pipeline where
  "mixed_pipeline =
     new_pipeline (new_finder (Some ''key'') ''claude-3-sonnet-20240229'')
       [PDict acme, PNone, PDict [(KStr ''first_name'', PStr ''Jane'')]]"

text \<open>A world in which AI Ark answers with one lead, and the other sources are down.\<close>

definition ark_world :: world where
  "ark_world =
     \<lparr>ark_open = None, ark_api_key = PStr ''key'',
      ark_http = (\<lambda>payload n. Inr \<lparr>status_code = 200,
         json = Inr (PDict [(KStr ''results'',
                  PList [PDict [(KStr ''email'', PStr ''jane@acme.com'')]])])\<rparr>),
      ark_parse = (\<lambda>raw. Inr (the_dict raw)),
      linkedin = (\<lambda>url. Inl (Exn HTTPError ''unreachable'')),
      claude = (\<lambda>d. Inl (Exn OtherError ''unavailable''))\<rparr>"

text \<open>
  A world in which every source fails: the AI Ark requests time out, the LinkedIn session
  raises, and the API call of the AI finder raises.
\<close>

definition down_world :: world where
  "down_world =
     \<lparr>ark_open = None, ark_api_key = PStr ''key'',
      ark_http = (\<lambda>payload n. Inl (Exn TimeoutError ''timed out'')),
      ark_parse = (\<lambda>raw. Inr (the_dict raw)),
      linkedin = (\<lambda>url. Inl (Exn HTTPError ''unreachable'')),
      claude = (\<lambda>d. Inl (Exn OtherError ''unavailable''))\<rparr>"





section \<open>Properties of the rate limiter\<close>

lemma new_rate_limiter_configured: "new_rate_limiter R = Inr rl \<Longrightarrow> configured R rl"
  by (auto simp: new_rate_limiter_def configured_def split: if_splits)













section \<open>Properties of the retrying request\<close>

lemma attempt_total:
  "total_requests (scraper_stats (snd (make_request_attempt sc sent)))
     = total_requests (scraper_stats sc) + 1"
  by (simp add: make_request_attempt_def Let_def split: sum.split)

lemma attempt_ok:
  "client_open sc \<Longrightarrow>
   make_request_attempt sc (Inr resp) =
     (Inr resp, sc\<lparr>scraper_stats := (scraper_stats sc)
        \<lparr>total_requests := total_requests (scraper_stats sc) + 1,
         successful_requests := successful_requests (scraper_stats sc) + 1\<rparr>\<rparr>)"
  by (simp add: make_request_attempt_def Let_def)

lemma attempt_raises:
  "client_open sc \<Longrightarrow>
   make_request_attempt sc (Inl e) =
     (Inl e, sc\<lparr>scraper_stats := (scraper_stats sc)
        \<lparr>total_requests := total_requests (scraper_stats sc) + 1,
         failed_requests := failed_requests (scraper_stats sc) + 1,
         errors := errors (scraper_stats sc) @ [str e]\<rparr>\<rparr>)"
  by (simp add: make_request_attempt_def Let_def)

lemma attempt_inv:
  "stats_inv (scraper_stats sc) \<Longrightarrow>
   stats_inv (scraper_stats (snd (make_request_attempt sc sent)))"
  by (auto simp: make_request_attempt_def Let_def stats_inv_def split: sum.split)

lemma attempt_client: "client_open (snd (make_request_attempt sc sent)) = client_open sc"
  by (simp add: make_request_attempt_def Let_def split: sum.split)


lemma make_request_from_total:
  "total_requests (scraper_stats (snd (make_request_from n http sc)))
     = total_requests (scraper_stats sc) + int (attempts_from n http sc)"
proof (induction n http sc rule: make_request_from.induct)
  case (1 n http sc)
  obtain r sc' where a: "make_request_attempt sc (http n) = (r, sc')"
    by (cases "make_request_attempt sc (http n)")
  have t: "total_requests (scraper_stats sc') = total_requests (scraper_stats sc) + 1"
    using attempt_total [of sc "http n"] a by simp
  show ?case
  proof (cases r)
    case (Inr resp)
    then show ?thesis
      using a t by (simp add: make_request_from.simps [of n] attempts_from.simps [of n])
  next
    case (Inl e)
    show ?thesis
    proof (cases "\<not> retryable e \<or> 3 \<le> n")
      case True
      then show ?thesis
        using a t Inl by (auto simp: make_request_from.simps [of n] attempts_from.simps [of n])
    next
      case False
      then have "total_requests (scraper_stats (snd (make_request_from (Suc n) http sc')))
          = total_requests (scraper_stats sc') + int (attempts_from (Suc n) http sc')"
        using "1.IH" [OF a [symmetric] Inl] by simp
      then show ?thesis
        using a t Inl False
        by (simp add: make_request_from.simps [of n] attempts_from.simps [of n])
    qed
  qed
qed

lemma make_request_from_inv:
  "stats_inv (scraper_stats sc) \<Longrightarrow>
   stats_inv (scraper_stats (snd (make_request_from n http sc)))"
proof (induction n http sc rule: make_request_from.induct)
  case (1 n http sc)
  obtain r sc' where a: "make_request_attempt sc (http n) = (r, sc')"
    by (cases "make_request_attempt sc (http n)")
  have i: "stats_inv (scraper_stats sc')"
    using attempt_inv [OF "1.prems", of "http n"] a by simp
  show ?case
  proof (cases r)
    case (Inr resp)
    then show ?thesis using a i by (simp add: make_request_from.simps [of n])
  next
    case (Inl e)
    show ?thesis
    proof (cases "\<not> retryable e \<or> 3 \<le> n")
      case True
      then show ?thesis using a i Inl by (auto simp: make_request_from.simps [of n])
    next
      case False
      then have "stats_inv (scraper_stats (snd (make_request_from (Suc n) http sc')))"
        using "1.IH" [OF a [symmetric] Inl] i by simp
      then show ?thesis using a Inl False by (simp add: make_request_from.simps [of n])
    qed
  qed
qed

text \<open>
  C6. A call of the retrying request whose first two attempts fail with a retryable
  transport error and whose third attempt succeeds returns the third response, having
  added exactly 3 to \<open>total_requests\<close>, 2 to \<open>failed_requests\<close>, the two messages to
  \<open>errors\<close> and 1 to \<open>successful_requests\<close>. In general every attempt, whatever its
  outcome, adds one to \<open>total_requests\<close>, so a call adds the number of its attempts.
\<close>

theorem make_request_two_failures_then_success:
  assumes "client_open sc"
    and "http 1 = Inl e1" and "retryable e1"
    and "http 2 = Inl e2" and "retryable e2"
    and "http 3 = Inr resp"
  shows "make_request http sc =
           (Inr resp,
            sc\<lparr>scraper_stats := (scraper_stats sc)
              \<lparr>total_requests := total_requests (scraper_stats sc) + 3,
               successful_requests := successful_requests (scraper_stats sc) + 1,
               failed_requests := failed_requests (scraper_stats sc) + 2,
               errors := errors (scraper_stats sc) @ [str e1, str e2]\<rparr>\<rparr>)
         \<and> attempts_from 1 http sc = 3
         \<and> (\<forall>sc' sent. total_requests (scraper_stats (snd (make_request_attempt sc' sent)))
                = total_requests (scraper_stats sc') + 1)
         \<and> (\<forall>http' sc'. total_requests (scraper_stats (snd (make_request http' sc')))
                = total_requests (scraper_stats sc') + int (attempts_from 1 http' sc'))"
proof -
  define sc1 where "sc1 = snd (make_request_attempt sc (http 1))"
  define sc2 where "sc2 = snd (make_request_attempt sc1 (http 2))"
  have a1: "make_request_attempt sc (http 1) = (Inl e1, sc1)"
    using assms(1,2) by (simp add: sc1_def attempt_raises)
  have o1: "client_open sc1"
    using assms(1) by (simp add: sc1_def attempt_client)
  have a2: "make_request_attempt sc1 (http 2) = (Inl e2, sc2)"
    using o1 assms(4) by (simp add: sc2_def attempt_raises)
  have o2: "client_open sc2"
    using o1 by (simp add: sc2_def attempt_client)
  have a3: "make_request_attempt sc2 (http 3) = make_request_attempt sc2 (Inr resp)"
    using assms(6) by simp
  have s2: "Suc (Suc 0) = 2" and s3: "Suc 2 = 3"
    by simp_all
  have r3: "make_request_from 3 http sc2 = make_request_attempt sc2 (Inr resp)"
    using o2 a3 make_request_from.simps [of 3 http sc2] by (simp add: attempt_ok)
  have r2: "make_request_from 2 http sc1 = make_request_from 3 http sc2"
    using a2 assms(5) make_request_from.simps [of 2 http sc1] by (simp add: s3)
  have r1: "make_request_from 1 http sc = make_request_from 2 http sc1"
    using a1 assms(3) make_request_from.simps [of 1 http sc] by (simp add: s2)
  have c3: "attempts_from 3 http sc2 = 1"
    using o2 a3 attempts_from.simps [of 3 http sc2] by (simp add: attempt_ok)
  have c2: "attempts_from 2 http sc1 = 2"
    using a2 assms(5) c3 attempts_from.simps [of 2 http sc1] by (simp add: s3)
  have c1: "attempts_from 1 http sc = 3"
    using a1 assms(3) c2 attempts_from.simps [of 1 http sc] by (simp add: s2)
  have v1: "sc1 = sc\<lparr>scraper_stats := (scraper_stats sc)
        \<lparr>total_requests := total_requests (scraper_stats sc) + 1,
         failed_requests := failed_requests (scraper_stats sc) + 1,
         errors := errors (scraper_stats sc) @ [str e1]\<rparr>\<rparr>"
    using assms(1,2) by (simp add: sc1_def attempt_raises)
  have v2: "sc2 = sc1\<lparr>scraper_stats := (scraper_stats sc1)
        \<lparr>total_requests := total_requests (scraper_stats sc1) + 1,
         failed_requests := failed_requests (scraper_stats sc1) + 1,
         errors := errors (scraper_stats sc1) @ [str e2]\<rparr>\<rparr>"
    using o1 assms(4) by (simp add: sc2_def attempt_raises)
  have "make_request http sc = make_request_attempt sc2 (Inr resp)"
    unfolding make_request_def r1 r2 r3 ..
  then have main: "make_request http sc =
           (Inr resp,
            sc\<lparr>scraper_stats := (scraper_stats sc)
              \<lparr>total_requests := total_requests (scraper_stats sc) + 3,
               successful_requests := successful_requests (scraper_stats sc) + 1,
               failed_requests := failed_requests (scraper_stats sc) + 2,
               errors := errors (scraper_stats sc) @ [str e1, str e2]\<rparr>\<rparr>)"
    using o2 by (simp add: attempt_ok v2 v1)
  show ?thesis
    using main c1 by (simp add: attempt_total make_request_def make_request_from_total)
qed

theorem make_request_two_failures_then_success_witness:
  "make_request
     (\<lambda>n. if n = 3 then Inr \<lparr>status_code = 200, json = Inr (PDict [])\<rparr>
          else Inl (Exn TimeoutError ''timed out''))
     new_scraper =
   (Inr \<lparr>status_code = 200, json = Inr (PDict [])\<rparr>,
    \<lparr>scraper_stats = \<lparr>total_requests = 3, successful_requests = 1, failed_requests = 2,
        total_items_found = 0, errors = [''timed out'', ''timed out'']\<rparr>,
     client_open = True\<rparr>)"
  using make_request_two_failures_then_success
    [of new_scraper
        "\<lambda>n. if n = 3 then Inr \<lparr>status_code = 200, json = Inr (PDict [])\<rparr>
             else Inl (Exn TimeoutError ''timed out'')"
        "Exn TimeoutError ''timed out''" "Exn TimeoutError ''timed out''"
        "\<lparr>status_code = 200, json = Inr (PDict [])\<rparr>"]
  by (simp add: new_scraper_def new_stats_def retryable_def)

text \<open>
  C9. Every attempt of \<open>_make_request\<close>, whether it returns a response or raises,
  keeps the invariant of the session statistics: \<open>total_requests\<close> is the sum of
  \<open>successful_requests\<close> and \<open>failed_requests\<close>, and \<open>errors\<close> holds one message per
  failed request. So does a whole call with its retries.
\<close>

theorem make_request_keeps_stats_inv:
  assumes "stats_inv (scraper_stats sc)"
  shows "stats_inv (scraper_stats (snd (make_request_attempt sc sent)))
         \<and> stats_inv (scraper_stats (snd (make_request http sc)))"
  using assms by (simp add: attempt_inv make_request_def make_request_from_inv)

theorem make_request_keeps_stats_inv_witness:
  "stats_inv (scraper_stats new_scraper)
   \<and> stats_inv (scraper_stats (snd (make_request_attempt new_scraper
        (Inl (Exn HTTPError ''503'')))))
   \<and> scraper_stats (snd (make_request_attempt new_scraper (Inl (Exn HTTPError ''503''))))
       = \<lparr>total_requests = 1, successful_requests = 0, failed_requests = 1,
          total_items_found = 0, errors = [''503'']\<rparr>"
proof -
  have h: "stats_inv (scraper_stats new_scraper)"
    by (simp add: stats_inv_def new_scraper_def new_stats_def)
  show ?thesis
    using h make_request_keeps_stats_inv [OF h, of "Inl (Exn HTTPError ''503'')"]
    by (simp add: make_request_attempt_def new_scraper_def new_stats_def Let_def)
qed


section \<open>Properties of the cost tracking\<close>

lemma call_claude_fixed:
  "api_key (snd (call_claude f api)) = api_key f \<and> model (snd (call_claude f api)) = model f"
  by (simp add: call_claude_def Let_def split: sum.split)

lemma call_claude_tokens:
  "total_input_tokens (snd (call_claude f api))
     = total_input_tokens f + sum_list (map input_tokens (tracked f [api]))
   \<and> total_output_tokens (snd (call_claude f api))
     = total_output_tokens f + sum_list (map output_tokens (tracked f [api]))"
  by (cases api) (auto simp: call_claude_def Let_def split: sum.split)

lemma tracked_Cons:
  "tracked f (api # apis) = tracked f [api] @ tracked (snd (call_claude f api)) apis"
proof -
  have k: "api_key (snd (call_claude f api)) = api_key f"
    by (simp add: call_claude_fixed)
  have n: "(api_key g = None \<or> api_key g = Some []) \<Longrightarrow> tracked g apis = []" for g
    by (induction g apis rule: tracked.induct) auto
  have e: "api_key g = api_key f \<Longrightarrow> tracked g apis = tracked f apis" for g
    by (induction g apis rule: tracked.induct) auto
  show ?thesis
    by (cases api) (use k e [of "snd (call_claude f api)"] n [of "snd (call_claude f api)"] in \<open>auto\<close>)
qed

lemma call_claude_seq_totals:
  "total_input_tokens (call_claude_seq f apis)
     = total_input_tokens f + sum_list (map input_tokens (tracked f apis))
   \<and> total_output_tokens (call_claude_seq f apis)
     = total_output_tokens f + sum_list (map output_tokens (tracked f apis))
   \<and> model (call_claude_seq f apis) = model f"
proof (induction apis arbitrary: f)
  case Nil
  show ?case by simp
next
  case (Cons api apis)
  show ?case
    using Cons.IH [of "snd (call_claude f api)"] call_claude_tokens [of f api]
      call_claude_fixed [of f api]
    by (simp add: tracked_Cons [of f api apis])
qed

lemma estimate_cost_model: "model f = model g \<Longrightarrow> estimate_cost f = estimate_cost g"
  by (rule ext, rule ext) (simp add: estimate_cost_def)

text \<open>
  C8. After any sequence of calls made by one finder, \<open>get_total_cost\<close> is the cost
  estimate applied to the accumulated input and output tokens: the totals the finder
  started with (zero for a new one) plus the sums over all calls whose usage was
  tracked; it is computed from the running totals, not from the per-call costs. After
  two tracked calls it is the estimate of the two usages added.
\<close>

theorem get_total_cost_of_sums:
  "get_total_cost (call_claude_seq f apis)
     = estimate_cost f
         (total_input_tokens f + sum_list (map input_tokens (tracked f apis)))
         (total_output_tokens f + sum_list (map output_tokens (tracked f apis)))
   \<and> get_total_cost (call_claude_seq (new_finder (Some (k # key)) m) [Inr m1, Inr m2])
     = estimate_cost (new_finder (Some (k # key)) m)
         (input_tokens m1 + input_tokens m2) (output_tokens m1 + output_tokens m2)"
proof -
  have g: "get_total_cost (call_claude_seq f apis)
     = estimate_cost f
         (total_input_tokens f + sum_list (map input_tokens (tracked f apis)))
         (total_output_tokens f + sum_list (map output_tokens (tracked f apis)))" for f apis
    using call_claude_seq_totals [of f apis]
      estimate_cost_model [of "call_claude_seq f apis" f]
    by (simp add: get_total_cost_def)
  show ?thesis
    using g [of f apis] g [of "new_finder (Some (k # key)) m" "[Inr m1, Inr m2]"]
    by (simp add: new_finder_def)
qed

text \<open>
  The per-call costs are rounded one by one, so their sum can differ from the total:
  three calls of one input token each on a haiku model cost nothing each, and
  \<open>0.000001\<close> in total.
\<close>

lemma total_cost_is_not_sum_of_costs:
  "estimate_cost (new_finder (Some ''k'') ''claude-3-haiku'') 1 0 = 0
   \<and> get_total_cost (call_claude_seq (new_finder (Some ''k'') ''claude-3-haiku'')
        [Inr \<lparr>input_tokens = 1, output_tokens = 0, body = Inr (PDict [])\<rparr>,
         Inr \<lparr>input_tokens = 1, output_tokens = 0, body = Inr (PDict [])\<rparr>,
         Inr \<lparr>input_tokens = 1, output_tokens = 0, body = Inr (PDict [])\<rparr>]) = 1 / 1000000"
  by (simp add: get_total_cost_def estimate_cost_def new_finder_def call_claude_def Let_def
      lower_def lower_char_def round6_def round_half_even_def)

section \<open>Properties of the pipeline\<close>

subsection \<open>The store\<close>

lemma frame_ok_refl: "frame_ok e p p"
  unfolding frame_ok_def by (metis list_update_id)

lemma frame_ok_trans: "frame_ok e p q \<Longrightarrow> frame_ok e q r \<Longrightarrow> frame_ok e p r"
  unfolding frame_ok_def by (metis list_update_overwrite)

lemma ai_enrich_lead_fixed:
  "api_key (snd (ai_enrich_lead f api)) = api_key f \<and> model (snd (ai_enrich_lead f api)) = model f"
  using call_claude_fixed [of f api]
  by (auto simp: ai_enrich_lead_def split: prod.split sum.split pyval.split)

lemma try_ai_ark_frame:
  "enriched (fst (try_ai_ark w u a l p)) = enriched l
   \<and> frame_ok (enriched l) p (snd (try_ai_ark w u a l p))"
  unfolding try_ai_ark_def Let_def
  by (auto simp: frame_ok_def store_def split: option.split sum.split intro: list_update_id [symmetric])

lemma try_linkedin_frame:
  "enriched (fst (try_linkedin w u a l p)) = enriched l
   \<and> frame_ok (enriched l) p (snd (try_linkedin w u a l p))"
  unfolding try_linkedin_def Let_def
  by (auto simp: frame_ok_def store_def split: option.split sum.split intro: list_update_id [symmetric])

lemma try_ai_finder_frame:
  "enriched (fst (try_ai_finder w u a l p)) = enriched l
   \<and> frame_ok (enriched l) p (snd (try_ai_finder w u a l p))"
  unfolding try_ai_finder_def Let_def
  using ai_enrich_lead_fixed
  by (auto simp: frame_ok_def store_def split: option.split sum.split intro: list_update_id [symmetric])

lemma track_results_frame: "frame_ok (enriched l) p (track_results l p)"
  unfolding track_results_def Let_def
  by (auto simp: frame_ok_def store_def split: option.split list.split intro: list_update_id [symmetric])

text \<open>
  Each step of \<open>enrich_lead\<close>, as one equation on the store: what it appends to the
  trace, and what it writes, always at the address \<open>enriched\<close>.
\<close>

lemma try_ai_ark_eq:
  "try_ai_ark w u a l p =
     (case ark_payload w u (the_dict (deref p a)) of
        None \<Rightarrow>
          (l, p\<lparr>calls := calls p @
                 (if ark_eligible u (the_dict (deref p a)) \<and> ark_open w = None then [AIArk] else [])\<rparr>)
      | Some d' \<Rightarrow>
          (l\<lparr>source := Some ''ai_ark''\<rparr>,
           p\<lparr>stats := (stats p)\<lparr>ai_ark_hits := ai_ark_hits (stats p) + 1\<rparr>,
             heap := (heap p)[enriched l := PDict (dict_update (the_dict (deref p (enriched l))) d')],
             calls := calls p @ [AIArk]\<rparr>))"
  unfolding try_ai_ark_def ark_payload_def ark_eligible_def ark_call_def Let_def
  by (auto simp: store_def deref_def split: option.split sum.split)

lemma try_linkedin_eq:
  "try_linkedin w u a l p =
     (if no_source l then
        (case linkedin_payload w u (the_dict (deref p a)) of
           None \<Rightarrow>
             (l, p\<lparr>calls := calls p @
                    (if linkedin_eligible u (the_dict (deref p a)) then [LinkedIn] else [])\<rparr>)
         | Some d' \<Rightarrow>
             (l\<lparr>source := Some ''linkedin''\<rparr>,
              p\<lparr>stats := (stats p)\<lparr>linkedin_hits := linkedin_hits (stats p) + 1\<rparr>,
                heap := (heap p)[enriched l := PDict (dict_update (the_dict (deref p (enriched l))) d')],
                calls := calls p @ [LinkedIn]\<rparr>))
      else (l, p))"
  unfolding try_linkedin_def linkedin_payload_def linkedin_eligible_def linkedin_call_def Let_def
  by (auto simp: store_def deref_def split: option.split sum.split)


lemma deref_fields [simp]:
  "deref (p\<lparr>calls := c\<rparr>) = deref p"
  "deref (p\<lparr>stats := s\<rparr>) = deref p"
  "deref (p\<lparr>ai_finder := f\<rparr>) = deref p"
  by (rule ext, simp add: deref_def)+

lemma deref_store:
  "deref (store e v p) b = (if b = e \<and> e < length (heap p) then v else deref p b)"
  by (simp add: deref_def store_def)

lemma deref_heap:
  "deref (p\<lparr>heap := h\<rparr>) b = (if b < length h then h ! b else PNone)"
  by (simp add: deref_def)

lemma try_ai_finder_eq:
  assumes "enriched l < length (heap p)"
  shows "try_ai_finder w u a l p =
     (if no_source l \<and> u then
        (let r = ai_enrich_lead (ai_finder p) (claude w (the_dict (deref p a)));
             q = p\<lparr>ai_finder := snd r, calls := calls p @ [AIFinder]\<rparr>
         in case fst r of
              Inl e \<Rightarrow> (l, q)
            | Inr result \<Rightarrow>
                if truthy (enriched_data result) then
                  (case snd (py_update (the_dict (deref p (enriched l))) (enriched_data result)) of
                     Some x \<Rightarrow>
                       (l, q\<lparr>heap := (heap p)[enriched l :=
                              PDict (fst (py_update (the_dict (deref p (enriched l))) (enriched_data result)))]\<rparr>)
                   | None \<Rightarrow>
                       (l\<lparr>source := Some ''ai_enriched'', cost := cost_usd result\<rparr>,
                        q\<lparr>stats := (stats p)
                             \<lparr>ai_finder_hits := ai_finder_hits (stats p) + 1,
                              total_cost := total_cost (stats p) + cost_usd result\<rparr>,
                          heap := (heap p)[enriched l :=
                             PDict (dict_set (dict_set (dict_set
                               (fst (py_update (the_dict (deref p (enriched l))) (enriched_data result)))
                               ''alternate_emails'' (alternate_emails result))
                               ''alternate_companies'' (alternate_companies result))
                               ''ai_reasoning'' (summary result))]\<rparr>))
                else (l, q))
      else (l, p))"
  unfolding try_ai_finder_def Let_def
  using assms
  by (auto simp: deref_heap store_def the_dict_def split: option.split sum.split)

lemma track_results_eq:
  assumes "enriched l < length (heap p)"
  shows "track_results l p =
     (if no_source l then
        p\<lparr>stats := (stats p)\<lparr>failed := failed (stats p) + 1\<rparr>,
          heap := (heap p)[enriched l :=
             PDict (dict_set (the_dict (deref p (enriched l))) ''enrichment_source'' PNone)]\<rparr>
      else
        p\<lparr>stats := (stats p)\<lparr>total_enriched := total_enriched (stats p) + 1\<rparr>,
          heap := (heap p)[enriched l :=
             PDict (dict_set (dict_set (the_dict (deref p (enriched l)))
               ''enrichment_source'' (PStr (the (source l))))
               ''enrichment_cost'' (PFloat (cost l)))]\<rparr>)"
  unfolding track_results_def Let_def no_source_def
  using assms
  by (auto simp: deref_heap store_def the_dict_def split: option.split list.split)


lemma ark_parse_loop_all:
  "\<forall>r \<in> set results. success r \<and> data r \<noteq> None \<Longrightarrow>
   \<forall>r \<in> set (fst (ark_parse_loop parse raws results errs)). success r \<and> data r \<noteq> None"
proof (induction raws arbitrary: results errs)
  case Nil
  then show ?case by simp
next
  case (Cons raw raws)
  show ?case
  proof (cases "parse raw")
    case (Inl e)
    then show ?thesis using Cons.IH [OF Cons.prems] by simp
  next
    case (Inr d)
    show ?thesis
    proof (cases raw)
      case (PDict kvs)
      have "\<forall>r \<in> set (results @ [\<lparr>success = True, data = Some d, error = None,
              source_url = dict_get kvs ''linkedin_url'', raw_response = Some raw,
              duration_ms = 0\<rparr>]). success r \<and> data r \<noteq> None"
        using Cons.prems by simp
      from Cons.IH [OF this] show ?thesis using Inr PDict by simp
    qed (use Inr Cons.IH [OF Cons.prems] in simp_all)
  qed
qed

lemma ark_scrape_shape:
  assumes "fst (ark_scrape w kw sc) = Inr results"
  shows "(\<forall>r \<in> set results. success r \<and> data r \<noteq> None) \<or> (\<exists>e. results = [failure e])"
proof -
  have loop: "ark_parse_loop (ark_parse w) raws [] errs = (rs, es) \<Longrightarrow>
      \<forall>r \<in> set rs. success r \<and> data r \<noteq> None" for raws errs rs es
    using ark_parse_loop_all [of "[]" "ark_parse w" raws errs] by simp
  show ?thesis
    using assms loop
    by (auto simp: ark_scrape_def split: if_splits prod.splits sum.splits pyval.splits option.splits)
qed

lemma ark_call_shape:
  assumes "ark_call w d = Inr results" and "\<exists>r \<in> set results. success r"
  shows "results \<noteq> [] \<and> success (hd results) \<and> data (hd results) \<noteq> None"
proof -
  have "(\<forall>r \<in> set results. success r \<and> data r \<noteq> None) \<or> (\<exists>e. results = [failure e])"
    using assms(1) ark_scrape_shape
    by (auto simp: ark_call_def enrich_company_def split: if_splits)
  moreover have "\<not> success (failure e)" for e
    by (simp add: failure_def)
  ultimately show ?thesis
    using assms(2) by (cases results) auto
qed

lemma deref_dict_range: "deref p a = PDict d \<Longrightarrow> a < length (heap p) \<and> heap p ! a = PDict d"
  by (auto simp: deref_def split: if_splits)

lemma enrich_lead_dict:
  assumes "deref p a = PDict d"
  shows "enrich_lead w u1 u2 u3 a p =
    (let s1 = try_ai_ark w u1 a \<lparr>enriched = length (heap p), source = None, cost = 0\<rparr>
                (p\<lparr>heap := heap p @ [PDict d]\<rparr>);
         s2 = try_linkedin w u2 a (fst s1) (snd s1);
         s3 = try_ai_finder w u3 a (fst s2) (snd s2)
     in (Inr (enriched (fst s3)), track_results (fst s3) (snd s3)))"
  using assms by (simp add: enrich_lead_def alloc_def Let_def split: prod.split)

subsection \<open>The waterfall\<close>

lemma ai_ark_hit_outcome:
  assumes "deref p lead_data = PDict d"
    and "ark_eligible use_ai_ark d" and "ark_open w = None"
    and "ark_call w d = Inr results" and "\<exists>r \<in> set results. success r"
  shows "\<exists>payload. data (hd results) = Some payload \<and>
      enrich_lead w use_ai_ark use_linkedin use_ai_finder lead_data p =
        (Inr (length (heap p)),
         p\<lparr>stats := (stats p)\<lparr>total_enriched := total_enriched (stats p) + 1,
                              ai_ark_hits := ai_ark_hits (stats p) + 1\<rparr>,
           heap := heap p @
             [PDict (dict_set (dict_set (dict_update d payload)
                ''enrichment_source'' (PStr ''ai_ark''))
                ''enrichment_cost'' (PFloat 0))],
           calls := calls p @ [AIArk]\<rparr>)"
proof -
  obtain payload where pl: "data (hd results) = Some payload"
    and ne: "results \<noteq> []" and su: "success (hd results)"
    using ark_call_shape [OF assms(4,5)] by auto
  have ap: "ark_payload w use_ai_ark d = Some payload"
    using assms(2,3,4) pl ne su by (simp add: ark_payload_def)
  have a: "lead_data < length (heap p)" "heap p ! lead_data = PDict d"
    using deref_dict_range [OF assms(1)] by simp_all
  define p0 where "p0 = p\<lparr>heap := heap p @ [PDict d]\<rparr>"
  define l0 where "l0 = \<lparr>enriched = length (heap p), source = None, cost = 0\<rparr>"
  have d0: "deref p0 lead_data = PDict d" and e0: "deref p0 (length (heap p)) = PDict d"
    using a by (simp_all add: p0_def deref_def nth_append)
  define p1 where "p1 = p0\<lparr>stats := (stats p0)\<lparr>ai_ark_hits := ai_ark_hits (stats p0) + 1\<rparr>,
             heap := (heap p0)[enriched l0 := PDict (dict_update d payload)],
             calls := calls p0 @ [AIArk]\<rparr>"
  define l1 where "l1 = l0\<lparr>source := Some ''ai_ark''\<rparr>"
  have s1: "try_ai_ark w use_ai_ark lead_data l0 p0 = (l1, p1)"
    by (simp add: try_ai_ark_eq d0 e0 ap the_dict_def l0_def l1_def p1_def)
  have ns: "\<not> no_source l1"
    by (simp add: no_source_def l1_def)
  have s2: "try_linkedin w use_linkedin lead_data l1 p1 = (l1, p1)"
    using ns by (simp add: try_linkedin_eq)
  have r1: "enriched l1 < length (heap p1)"
    by (simp add: l1_def l0_def p1_def p0_def)
  have s3: "try_ai_finder w use_ai_finder lead_data l1 p1 = (l1, p1)"
    using ns by (simp add: try_ai_finder_eq [OF r1])
  have t: "track_results l1 p1 =
      p\<lparr>stats := (stats p)\<lparr>total_enriched := total_enriched (stats p) + 1,
                              ai_ark_hits := ai_ark_hits (stats p) + 1\<rparr>,
           heap := heap p @
             [PDict (dict_set (dict_set (dict_update d payload)
                ''enrichment_source'' (PStr ''ai_ark''))
                ''enrichment_cost'' (PFloat 0))],
           calls := calls p @ [AIArk]\<rparr>"
    unfolding track_results_eq [OF r1]
    using ns by (simp add: deref_def the_dict_def l1_def l0_def p1_def p0_def)
  have "enrich_lead w use_ai_ark use_linkedin use_ai_finder lead_data p =
      (Inr (enriched l1), track_results l1 p1)"
    using s1 s2 s3
    by (simp add: enrich_lead_dict [OF assms(1)] Let_def l0_def [symmetric] p0_def [symmetric])
  then show ?thesis
    using pl t by (simp add: l1_def l0_def)
qed

text \<open>
  C1. When the AI Ark adapter is attempted (enabled, the record names a company or a
  domain, the session opens) and returns a result with \<open>success=True\<close>, \<open>enrich_lead\<close>
  returns a new record: the input merged with the payload of the first result, with
  \<open>enrichment_source = "ai_ark"\<close> and \<open>enrichment_cost = 0.0\<close>. The trace grows by the AI
  Ark call alone: neither LinkedIn nor the AI finder is invoked, whatever the toggles. The
  counters \<open>ai_ark_hits\<close> and \<open>total_enriched\<close> grow by one.
\<close>

theorem primary_success_short_circuits:
  assumes "deref p lead_data = PDict d"
    and "ark_eligible use_ai_ark d" and "ark_open w = None"
    and "ark_call w d = Inr results" and "\<exists>r \<in> set results. success r"
  shows "\<exists>payload. data (hd results) = Some payload \<and>
      enrich_lead w use_ai_ark use_linkedin use_ai_finder lead_data p =
        (Inr (length (heap p)),
         p\<lparr>stats := (stats p)\<lparr>total_enriched := total_enriched (stats p) + 1,
                              ai_ark_hits := ai_ark_hits (stats p) + 1\<rparr>,
           heap := heap p @
             [PDict (dict_set (dict_set (dict_update d payload)
                ''enrichment_source'' (PStr ''ai_ark''))
                ''enrichment_cost'' (PFloat 0))],
           calls := calls p @ [AIArk]\<rparr>)"
  using ai_ark_hit_outcome [OF assms] .

lemmas make_request_unroll =
  make_request_from.simps [of "Suc 0"] make_request_from.simps [of "Suc (Suc 0)"]
  make_request_from.simps [of "Suc (Suc (Suc 0))"]

lemma ark_world_call:
  "ark_call ark_world acme =
     Inr [\<lparr>success = True, data = Some [(KStr ''email'', PStr ''jane@acme.com'')], error = None,
           source_url = PNone,
           raw_response = Some (PDict [(KStr ''email'', PStr ''jane@acme.com'')]),
           duration_ms = 0\<rparr>]"
  by (simp add: ark_call_def enrich_company_def ark_scrape_def make_request_def
      make_request_unroll make_request_attempt_def
      new_scraper_def Let_def ark_world_def acme_def dict_get_def dict_get_or_def
      py_iter_def ark_leads_def the_dict_def)

lemma down_world_call:
  "ark_call down_world acme =
     Inr [\<lparr>success = False, data = None, error = Some ''RetryError'', source_url = PNone,
           raw_response = None, duration_ms = 0\<rparr>]"
  by (simp add: ark_call_def enrich_company_def ark_scrape_def make_request_def
      make_request_unroll make_request_attempt_def retryable_def numeral_3_eq_3 failure_def
      new_scraper_def Let_def down_world_def acme_def dict_get_def dict_get_or_def)

lemma ark_world_run:
  "enrich_lead ark_world True True True 0 acme_pipeline =
     (Inr 1,
      \<lparr>stats = \<lparr>total_enriched = 1, ai_ark_hits = 1, linkedin_hits = 0, ai_finder_hits = 0,
         failed = 0, total_cost = 0\<rparr>,
       ai_finder = new_finder (Some ''key'') ''claude-3-sonnet-20240229'',
       heap = [PDict acme,
               PDict (acme @ [(KStr ''email'', PStr ''jane@acme.com''),
                 (KStr ''enrichment_source'', PStr ''ai_ark''),
                 (KStr ''enrichment_cost'', PFloat 0)])],
       calls = [AIArk]\<rparr>)"
proof -
  have h1: "deref acme_pipeline 0 = PDict acme"
    by (simp add: acme_pipeline_def new_pipeline_def deref_def)
  have h2: "ark_eligible True acme"
    by (simp add: ark_eligible_def acme_def dict_get_def dict_get_or_def py_or_def)
  have h3: "ark_open ark_world = None"
    by (simp add: ark_world_def)
  show ?thesis
    using ai_ark_hit_outcome [OF h1 h2 h3 ark_world_call, of True True]
    by (simp add: acme_pipeline_def new_pipeline_def acme_def dict_set_def dict_update_def)
qed

theorem primary_success_short_circuits_witness:
  "enrich_lead ark_world True True True 0 acme_pipeline =
     (Inr 1,
      \<lparr>stats = \<lparr>total_enriched = 1, ai_ark_hits = 1, linkedin_hits = 0, ai_finder_hits = 0,
         failed = 0, total_cost = 0\<rparr>,
       ai_finder = new_finder (Some ''key'') ''claude-3-sonnet-20240229'',
       heap = [PDict acme,
               PDict (acme @ [(KStr ''email'', PStr ''jane@acme.com''),
                 (KStr ''enrichment_source'', PStr ''ai_ark''),
                 (KStr ''enrichment_cost'', PFloat 0)])],
       calls = [AIArk]\<rparr>)"
proof -
  have h1: "deref acme_pipeline 0 = PDict acme"
    by (simp add: acme_pipeline_def new_pipeline_def deref_def)
  have h2: "ark_eligible True acme"
    by (simp add: ark_eligible_def acme_def dict_get_def dict_get_or_def py_or_def)
  have h3: "ark_open ark_world = None"
    by (simp add: ark_world_def)
  show ?thesis
    using primary_success_short_circuits [OF h1 h2 h3 ark_world_call, of True True]
    by (simp add: acme_pipeline_def new_pipeline_def acme_def dict_set_def dict_update_def)
qed

lemma all_miss_outcome:
  assumes "deref p lead_data = PDict d"
    and "ark_eligible use_ai_ark d \<longrightarrow> ark_misses w d"
    and "linkedin_eligible use_linkedin d \<longrightarrow> linkedin_misses w d"
    and "use_ai_finder \<longrightarrow> ai_finder_misses w (ai_finder p) d"
  shows "fst (enrich_lead w use_ai_ark use_linkedin use_ai_finder lead_data p) = Inr (length (heap p))
    \<and> heap (snd (enrich_lead w use_ai_ark use_linkedin use_ai_finder lead_data p))
        = heap p @ [PDict (dict_set d ''enrichment_source'' PNone)]
    \<and> stats (snd (enrich_lead w use_ai_ark use_linkedin use_ai_finder lead_data p))
        = (stats p)\<lparr>failed := failed (stats p) + 1\<rparr>"
proof -
  have a: "lead_data < length (heap p)" "heap p ! lead_data = PDict d"
    using deref_dict_range [OF assms(1)] by simp_all
  define p0 where "p0 = p\<lparr>heap := heap p @ [PDict d]\<rparr>"
  define l0 where "l0 = \<lparr>enriched = length (heap p), source = None, cost = 0\<rparr>"
  have d0: "deref p0 lead_data = PDict d" and e0: "deref p0 (length (heap p)) = PDict d"
    using a by (simp_all add: p0_def deref_def nth_append)
  have ns: "no_source l0"
    by (simp add: no_source_def l0_def)
  have ap: "ark_payload w use_ai_ark d = None"
    using assms(2)
    by (auto simp: ark_payload_def ark_misses_def split: sum.split option.splits)
  have lp: "linkedin_payload w use_linkedin d = None"
    using assms(3)
    by (auto simp: linkedin_payload_def linkedin_misses_def split: sum.split option.splits)
  define p1 where "p1 = p0\<lparr>calls := calls p0 @
      (if ark_eligible use_ai_ark d \<and> ark_open w = None then [AIArk] else [])\<rparr>"
  have s1: "try_ai_ark w use_ai_ark lead_data l0 p0 = (l0, p1)"
    by (simp add: try_ai_ark_eq d0 ap the_dict_def p1_def)
  have d1: "deref p1 lead_data = PDict d"
    using d0 by (simp add: p1_def)
  define p2 where "p2 = p1\<lparr>calls := calls p1 @
      (if linkedin_eligible use_linkedin d then [LinkedIn] else [])\<rparr>"
  have s2: "try_linkedin w use_linkedin lead_data l0 p1 = (l0, p2)"
    using ns by (simp add: try_linkedin_eq d1 lp the_dict_def p2_def)
  have d2: "deref p2 lead_data = PDict d"
    using d1 by (simp add: p2_def)
  have r2: "enriched l0 < length (heap p2)"
    by (simp add: l0_def p2_def p1_def p0_def)
  have f2: "ai_finder p2 = ai_finder p"
    by (simp add: p2_def p1_def p0_def)
  obtain p3 where s3: "try_ai_finder w use_ai_finder lead_data l0 p2 = (l0, p3)"
    and h3: "heap p3 = heap p2" and st3: "stats p3 = stats p2"
    using assms(4) ns
    by (cases use_ai_finder)
      (auto simp: try_ai_finder_eq [OF r2] d2 f2 the_dict_def Let_def ai_finder_misses_def
        ai_call_def split: sum.splits)
  have r3: "enriched l0 < length (heap p3)"
    using r2 h3 by simp
  have e3: "deref p3 (length (heap p)) = PDict d"
    by (simp add: deref_def h3 p2_def p1_def p0_def)
  have t: "track_results l0 p3 =
      p3\<lparr>stats := (stats p3)\<lparr>failed := failed (stats p3) + 1\<rparr>,
         heap := (heap p3)[enriched l0 := PDict (dict_set d ''enrichment_source'' PNone)]\<rparr>"
    unfolding track_results_eq [OF r3]
    using ns e3 by (simp add: the_dict_def l0_def)
  have "enrich_lead w use_ai_ark use_linkedin use_ai_finder lead_data p =
      (Inr (enriched l0), track_results l0 p3)"
    using s1 s2 s3
    by (simp add: enrich_lead_dict [OF assms(1)] Let_def l0_def [symmetric] p0_def [symmetric])
  then have "enrich_lead w use_ai_ark use_linkedin use_ai_finder lead_data p =
      (Inr (length (heap p)),
       p3\<lparr>stats := (stats p3)\<lparr>failed := failed (stats p3) + 1\<rparr>,
         heap := (heap p3)[enriched l0 := PDict (dict_set d ''enrichment_source'' PNone)]\<rparr>)"
    unfolding t by (simp add: l0_def)
  then show ?thesis
    by (simp add: h3 st3 p2_def p1_def p0_def l0_def)
qed


lemma down_world_misses:
  "ark_misses down_world acme \<and> linkedin_misses down_world acme
   \<and> ai_finder_misses down_world (ai_finder acme_pipeline) acme"
proof -
  have "ark_open down_world = None"
    by (simp add: down_world_def)
  then have 1: "ark_misses down_world acme"
    by (simp add: ark_misses_def down_world_call)
  have 2: "linkedin_misses down_world acme"
    by (simp add: linkedin_misses_def linkedin_call_def down_world_def)
  have 3: "ai_finder_misses down_world (ai_finder acme_pipeline) acme"
    by (simp add: ai_finder_misses_def ai_call_def ai_enrich_lead_def call_claude_def
        down_world_def acme_pipeline_def new_pipeline_def new_finder_def)
  show ?thesis
    using 1 2 3 by simp
qed

text \<open>
  C3, as stated, fails: when every source misses, \<open>enrich_lead\<close> does not write
  \<open>enrichment_cost\<close> at all. With all three sources down, the outcome for the Acme
  record is the record with \<open>enrichment_source = None\<close> and no key \<open>enrichment_cost\<close>
  (\<open>outcome.get("enrichment_cost")\<close> is \<open>None\<close>, not \<open>0\<close>).
\<close>

theorem all_miss_cost_counterexample:
  "ark_misses down_world acme \<and> linkedin_misses down_world acme
   \<and> ai_finder_misses down_world (ai_finder acme_pipeline) acme
   \<and> fst (enrich_lead down_world True True True 0 acme_pipeline) = Inr 1
   \<and> deref (snd (enrich_lead down_world True True True 0 acme_pipeline)) 1
       = PDict (acme @ [(KStr ''enrichment_source'', PNone)])
   \<and> map_of (acme @ [(KStr ''enrichment_source'', PNone)]) (KStr ''enrichment_cost'') = None
   \<and> dict_get (acme @ [(KStr ''enrichment_source'', PNone)]) ''enrichment_cost'' \<noteq> PFloat 0"
proof -
  have h1: "deref acme_pipeline 0 = PDict acme"
    by (simp add: acme_pipeline_def new_pipeline_def deref_def)
  have o: "fst (enrich_lead down_world True True True 0 acme_pipeline) = Inr 1
    \<and> heap (snd (enrich_lead down_world True True True 0 acme_pipeline))
        = [PDict acme, PDict (acme @ [(KStr ''enrichment_source'', PNone)])]"
    using all_miss_outcome [OF h1, of True down_world True True] down_world_misses
    by (simp add: acme_pipeline_def new_pipeline_def acme_def dict_set_def)
  show ?thesis
    using o down_world_misses
    by (simp add: deref_def acme_def dict_get_def dict_get_or_def)
qed

text \<open>
  C3, amended. When every enabled and eligible source misses (it raises, returns
  nothing, returns \<open>success=False\<close>, or returns no payload), the outcome is a new record:
  the input with \<open>enrichment_source = None\<close>. \<open>enrichment_cost\<close> is not written: the
  outcome has that key exactly when the input has it, with the input's value. The
  counter \<open>failed\<close> grows by one, and no other counter changes.
\<close>

theorem all_sources_miss:
  assumes "deref p lead_data = PDict d"
    and "ark_eligible use_ai_ark d \<longrightarrow> ark_misses w d"
    and "linkedin_eligible use_linkedin d \<longrightarrow> linkedin_misses w d"
    and "use_ai_finder \<longrightarrow> ai_finder_misses w (ai_finder p) d"
  shows "\<exists>out. fst (enrich_lead w use_ai_ark use_linkedin use_ai_finder lead_data p)
          = Inr (length (heap p))
    \<and> heap (snd (enrich_lead w use_ai_ark use_linkedin use_ai_finder lead_data p))
        = heap p @ [PDict out]
    \<and> out = dict_set d ''enrichment_source'' PNone
    \<and> map_of out (KStr ''enrichment_source'') = Some PNone
    \<and> map_of out (KStr ''enrichment_cost'') = map_of d (KStr ''enrichment_cost'')
    \<and> stats (snd (enrich_lead w use_ai_ark use_linkedin use_ai_finder lead_data p))
        = (stats p)\<lparr>failed := failed (stats p) + 1\<rparr>"
  using all_miss_outcome [OF assms]
  by (simp add: dict_set_def update_conv')

theorem all_sources_miss_witness:
  "heap (snd (enrich_lead down_world True True True 0 acme_pipeline))
     = [PDict acme, PDict (acme @ [(KStr ''enrichment_source'', PNone)])]
   \<and> stats (snd (enrich_lead down_world True True True 0 acme_pipeline))
     = \<lparr>total_enriched = 0, ai_ark_hits = 0, linkedin_hits = 0, ai_finder_hits = 0,
        failed = 1, total_cost = 0\<rparr>"
proof -
  have h1: "deref acme_pipeline 0 = PDict acme"
    by (simp add: acme_pipeline_def new_pipeline_def deref_def)
  show ?thesis
    using all_sources_miss [OF h1, of True down_world True True] down_world_misses
    by (simp add: acme_pipeline_def new_pipeline_def acme_def dict_set_def)
qed

subsection \<open>Invariants of a run\<close>

lemma keys_dict_update: "fst ` set d \<subseteq> fst ` set (dict_update d other)"
proof -
  have "fst ` set d \<subseteq> fst ` set (fold (\<lambda>kv acc. AList.update (fst kv) (snd kv) acc) other d)"
  proof (induction other arbitrary: d)
    case Nil
    show ?case by simp
  next
    case (Cons kv other)
    have "fst ` set d \<subseteq> fst ` set (AList.update (fst kv) (snd kv) d)"
      by (auto simp: dom_update)
    then show ?case
      using Cons.IH [of "AList.update (fst kv) (snd kv) d"] by auto
  qed
  then show ?thesis by (simp add: dict_update_def)
qed

lemma keys_update_seq: "fst ` set d \<subseteq> fst ` set (fst (update_seq d xs))"
proof (induction xs arbitrary: d)
  case Nil
  show ?case by simp
next
  case (Cons x xs)
  show ?case
  proof (cases "pair_of x")
    case (Inl e)
    then show ?thesis by simp
  next
    case (Inr kv)
    have "fst ` set d \<subseteq> fst ` set (AList.update (fst kv) (snd kv) d)"
      by (auto simp: dom_update)
    then show ?thesis
      using Cons.IH [of "AList.update (fst kv) (snd kv) d"] Inr by auto
  qed
qed

lemma keys_py_update: "fst ` set d \<subseteq> fst ` set (fst (py_update d v))"
  using keys_dict_update [of d] keys_update_seq [of d]
  by (cases v) (simp_all add: py_update_def)

lemma keys_dict_set: "fst ` set d \<subseteq> fst ` set (dict_set d k v)"
  by (auto simp: dict_set_def dom_update)

lemma run_ok_ai_ark:
  assumes "run_ok d n l q"
  shows "run_ok d n (fst (try_ai_ark w u a l q)) (snd (try_ai_ark w u a l q))"
proof -
  obtain e where e: "heap q ! n = PDict e" "fst ` set d \<subseteq> fst ` set e"
    and n: "enriched l = n" "n < length (heap q)"
    using assms by (auto simp: run_ok_def)
  have "fst ` set d \<subseteq> fst ` set (dict_update e x)" for x
    using e(2) keys_dict_update [of e x] by blast
  then show ?thesis
    using assms e n
    by (auto simp: try_ai_ark_eq run_ok_def deref_def the_dict_def split: option.split)
qed

lemma run_ok_linkedin:
  assumes "run_ok d n l q"
  shows "run_ok d n (fst (try_linkedin w u a l q)) (snd (try_linkedin w u a l q))"
proof -
  obtain e where e: "heap q ! n = PDict e" "fst ` set d \<subseteq> fst ` set e"
    and n: "enriched l = n" "n < length (heap q)"
    using assms by (auto simp: run_ok_def)
  have "fst ` set d \<subseteq> fst ` set (dict_update e x)" for x
    using e(2) keys_dict_update [of e x] by blast
  then show ?thesis
    using assms e n
    by (auto simp: try_linkedin_eq run_ok_def deref_def the_dict_def split: option.split)
qed

lemma run_ok_write:
  assumes "run_ok d n l q" and "enriched l' = n"
    and "source l' = None \<or> source l' = Some ''ai_ark'' \<or> source l' = Some ''linkedin''
          \<or> source l' = Some ''ai_enriched''"
    and "heap q' = (heap q)[n := PDict e']" and "fst ` set d \<subseteq> fst ` set e'"
  shows "run_ok d n l' q'"
  using assms by (simp add: run_ok_def)

lemma run_ok_same:
  assumes "run_ok d n l q" and "heap q' = heap q"
  shows "run_ok d n l q'"
  using assms by (simp add: run_ok_def)

lemma run_ok_ai_finder:
  assumes "run_ok d n l q"
  shows "run_ok d n (fst (try_ai_finder w u a l q)) (snd (try_ai_finder w u a l q))"
proof -
  obtain e where e: "heap q ! n = PDict e" "fst ` set d \<subseteq> fst ` set e"
    and n: "enriched l = n" "n < length (heap q)"
    using assms by (auto simp: run_ok_def)
  have r: "enriched l < length (heap q)"
    using n by simp
  have de: "the_dict (deref q (enriched l)) = e"
    using e n by (simp add: deref_def the_dict_def)
  define res where "res = ai_enrich_lead (ai_finder q) (claude w (the_dict (deref q a)))"
  show ?thesis
  proof (cases "no_source l \<and> u")
    case False
    have "try_ai_finder w u a l q = (l, q)"
      unfolding try_ai_finder_eq [OF r] if_not_P [OF False] ..
    then show ?thesis
      using assms by simp
  next
    case True
    show ?thesis
    proof (cases "fst res")
      case (Inl x)
      then have "try_ai_finder w u a l q = (l, q\<lparr>ai_finder := snd res, calls := calls q @ [AIFinder]\<rparr>)"
        using True by (simp add: try_ai_finder_eq [OF r] Let_def res_def)
      then show ?thesis
        using run_ok_same [OF assms] by simp
    next
      case (Inr result)
      show ?thesis
      proof (cases "truthy (enriched_data result)")
        case False
        then have "try_ai_finder w u a l q = (l, q\<lparr>ai_finder := snd res, calls := calls q @ [AIFinder]\<rparr>)"
          using True Inr by (simp add: try_ai_finder_eq [OF r] Let_def res_def)
        then show ?thesis
          using run_ok_same [OF assms] by simp
      next
        case t: True
        define m where "m = py_update e (enriched_data result)"
        have km: "fst ` set d \<subseteq> fst ` set (fst m)"
          using e(2) keys_py_update [of e "enriched_data result"] by (auto simp: m_def)
        show ?thesis
        proof (cases "snd m")
          case (Some x)
          then have "try_ai_finder w u a l q =
              (l, q\<lparr>ai_finder := snd res, calls := calls q @ [AIFinder],
                    heap := (heap q)[enriched l := PDict (fst m)]\<rparr>)"
            using True Inr t by (simp add: try_ai_finder_eq [OF r] Let_def res_def de m_def)
          then show ?thesis
            using assms n km by (simp add: run_ok_def)
        next
          case None
          define e' where "e' = dict_set (dict_set (dict_set (fst m)
                               ''alternate_emails'' (alternate_emails result))
                               ''alternate_companies'' (alternate_companies result))
                               ''ai_reasoning'' (summary result)"
          have ke: "fst ` set d \<subseteq> fst ` set e'"
            using km by (auto simp: e'_def dict_set_def dom_update)
          have "try_ai_finder w u a l q =
              (l\<lparr>source := Some ''ai_enriched'', cost := cost_usd result\<rparr>,
               q\<lparr>ai_finder := snd res, calls := calls q @ [AIFinder],
                 stats := (stats q)
                             \<lparr>ai_finder_hits := ai_finder_hits (stats q) + 1,
                              total_cost := total_cost (stats q) + cost_usd result\<rparr>,
                 heap := (heap q)[enriched l := PDict e']\<rparr>)"
            using True Inr t None
            by (simp add: try_ai_finder_eq [OF r] Let_def res_def de m_def e'_def)
          then show ?thesis
            using assms n ke by (simp add: run_ok_def)
        qed
      qed
    qed
  qed
qed

lemma frame_ok_deref:
  "frame_ok n q q' \<Longrightarrow> a \<noteq> n \<Longrightarrow> deref q' a = deref q a"
  by (auto simp: frame_ok_def deref_def)

lemma frame_ok_take:
  "frame_ok n q q' \<Longrightarrow> m \<le> n \<Longrightarrow> take m (heap q') = take m (heap q)"
  by (auto simp: frame_ok_def)

lemma try_ai_ark_obs:
  assumes "the_dict (deref q a) = d"
  shows "source (fst (try_ai_ark w u a l q))
           = (if ark_payload w u d = None then source l else Some ''ai_ark'')
    \<and> calls (snd (try_ai_ark w u a l q))
           = calls q @ (if ark_eligible u d \<and> ark_open w = None then [AIArk] else [])"
  using assms
  by (auto simp: try_ai_ark_eq ark_payload_def split: option.split)

lemma try_linkedin_obs:
  assumes "the_dict (deref q a) = d"
  shows "source (fst (try_linkedin w u a l q))
           = (if no_source l \<and> linkedin_payload w u d \<noteq> None then Some ''linkedin'' else source l)
    \<and> calls (snd (try_linkedin w u a l q))
           = calls q @ (if no_source l \<and> linkedin_eligible u d then [LinkedIn] else [])"
  using assms
  by (auto simp: try_linkedin_eq linkedin_payload_def split: option.split)

lemma try_ai_finder_obs:
  assumes "enriched l < length (heap q)"
  shows "calls (snd (try_ai_finder w u a l q))
           = calls q @ (if no_source l \<and> u then [AIFinder] else [])"
  by (simp add: try_ai_finder_eq [OF assms] Let_def split: sum.split option.split)


lemma enrich_lead_run:
  assumes "deref p a = PDict d"
  shows "\<exists>l3 p3. enrich_lead w u1 u2 u3 a p = (Inr (length (heap p)), track_results l3 p3)
     \<and> run_ok d (length (heap p)) l3 p3
     \<and> frame_ok (length (heap p)) (p\<lparr>heap := heap p @ [PDict d]\<rparr>) p3
     \<and> calls p3 = calls p @ waterfall_calls w u1 u2 u3 d"
proof -
  define n where "n = length (heap p)"
  have a: "a < n" "heap p ! a = PDict d"
    using deref_dict_range [OF assms] by (simp_all add: n_def)
  define p0 where "p0 = p\<lparr>heap := heap p @ [PDict d]\<rparr>"
  define l0 where "l0 = \<lparr>enriched = n, source = None, cost = 0\<rparr>"
  have d0: "deref p0 a = PDict d"
    using a by (simp add: p0_def deref_def nth_append n_def)
  have ok0: "run_ok d n l0 p0"
    by (auto simp: run_ok_def l0_def p0_def n_def)
  define s1 where "s1 = try_ai_ark w u1 a l0 p0"
  define s2 where "s2 = try_linkedin w u2 a (fst s1) (snd s1)"
  define s3 where "s3 = try_ai_finder w u3 a (fst s2) (snd s2)"
  have ok1: "run_ok d n (fst s1) (snd s1)"
    unfolding s1_def by (rule run_ok_ai_ark [OF ok0])
  have ok2: "run_ok d n (fst s2) (snd s2)"
    unfolding s2_def by (rule run_ok_linkedin [OF ok1])
  have ok3: "run_ok d n (fst s3) (snd s3)"
    unfolding s3_def by (rule run_ok_ai_finder [OF ok2])
  have e0: "enriched l0 = n"
    by (simp add: l0_def)
  have f1: "frame_ok n p0 (snd s1)"
    using try_ai_ark_frame [of w u1 a l0 p0] e0 by (simp add: s1_def)
  have e1: "enriched (fst s1) = n"
    using ok1 by (simp add: run_ok_def)
  have f2: "frame_ok n (snd s1) (snd s2)"
    using try_linkedin_frame [of w u2 a "fst s1" "snd s1"] e1 by (simp add: s2_def)
  have e2: "enriched (fst s2) = n"
    using ok2 by (simp add: run_ok_def)
  have f3: "frame_ok n (snd s2) (snd s3)"
    using try_ai_finder_frame [of w u3 a "fst s2" "snd s2"] e2 by (simp add: s3_def)
  have e3: "enriched (fst s3) = n"
    using ok3 by (simp add: run_ok_def)
  have f: "frame_ok n p0 (snd s3)"
    using frame_ok_trans [OF frame_ok_trans [OF f1 f2] f3] .
  have an: "a \<noteq> n"
    using a by simp
  have d1: "the_dict (deref (snd s1) a) = d"
    using frame_ok_deref [OF f1 an] d0 by (simp add: the_dict_def)
  have d2: "the_dict (deref (snd s2) a) = d"
    using frame_ok_deref [OF f2 an] frame_ok_deref [OF f1 an] d0 by (simp add: the_dict_def)
  have o1: "source (fst s1) = (if ark_payload w u1 d = None then None else Some ''ai_ark'')"
    and c1: "calls (snd s1) = calls p @ (if ark_eligible u1 d \<and> ark_open w = None then [AIArk] else [])"
    using try_ai_ark_obs [of p0 a d w u1 l0] d0
    by (simp_all add: s1_def the_dict_def l0_def p0_def)
  have n1: "no_source (fst s1) = (ark_payload w u1 d = None)"
    using o1 by (simp add: no_source_def)
  have o2: "no_source (fst s2) = (ark_payload w u1 d = None \<and> linkedin_payload w u2 d = None)"
    and c2: "calls (snd s2) = calls (snd s1) @
       (if ark_payload w u1 d = None \<and> linkedin_eligible u2 d then [LinkedIn] else [])"
    using try_linkedin_obs [OF d1, of w u2 "fst s1"] n1
    by (auto simp: s2_def no_source_def)
  have r2: "enriched (fst s2) < length (heap (snd s2))"
    using ok2 by (simp add: run_ok_def)
  have c3: "calls (snd s3) = calls (snd s2) @
       (if ark_payload w u1 d = None \<and> linkedin_payload w u2 d = None \<and> u3 then [AIFinder] else [])"
    using try_ai_finder_obs [OF r2, of w u3 a] o2 by (simp add: s3_def)
  have c: "calls (snd s3) = calls p @ waterfall_calls w u1 u2 u3 d"
    by (simp add: c3 c2 c1 waterfall_calls_def)
  have "enrich_lead w u1 u2 u3 a p = (Inr (enriched (fst s3)), track_results (fst s3) (snd s3))"
    by (simp add: enrich_lead_dict [OF assms] Let_def s3_def s2_def s1_def l0_def p0_def n_def)
  then show ?thesis
    using ok3 f c e3 by (auto simp: n_def p0_def)
qed

lemma enrich_lead_not_dict:
  assumes "\<And>d. deref p a \<noteq> PDict d"
  shows "enrich_lead w u1 u2 u3 a p = (Inl (Exn AttributeError ''object has no attribute get''), p)"
  using assms by (cases "deref p a") (auto simp: enrich_lead_def)

lemma enrich_lead_heap:
  assumes "deref p a = PDict d"
  shows "\<exists>v. fst (enrich_lead w u1 u2 u3 a p) = Inr (length (heap p))
    \<and> heap (snd (enrich_lead w u1 u2 u3 a p)) = heap p @ [v]
    \<and> api_key (ai_finder (snd (enrich_lead w u1 u2 u3 a p))) = api_key (ai_finder p)
    \<and> model (ai_finder (snd (enrich_lead w u1 u2 u3 a p))) = model (ai_finder p)"
proof -
  obtain l3 p3 where r: "enrich_lead w u1 u2 u3 a p = (Inr (length (heap p)), track_results l3 p3)"
    and ok: "run_ok d (length (heap p)) l3 p3"
    and f: "frame_ok (length (heap p)) (p\<lparr>heap := heap p @ [PDict d]\<rparr>) p3"
    using enrich_lead_run [OF assms, of w u1 u2 u3] by blast
  have "frame_ok (length (heap p)) p3 (track_results l3 p3)"
    using track_results_frame [of l3 p3] ok by (simp add: run_ok_def)
  from frame_ok_trans [OF f this]
  show ?thesis
    using r by (auto simp: frame_ok_def)
qed


text \<open>
  C10. \<open>enrich_lead\<close> never writes to the caller's record: after the call the object at
  the input address is what it was, and so is every object that existed before. The
  outcome is a new object, at an address other than the input's; what is merged and the
  two bookkeeping fields are written there. When the call raises, the store is unchanged.
\<close>

theorem enrich_lead_leaves_input:
  "deref (snd (enrich_lead w u1 u2 u3 lead_data p)) lead_data = deref p lead_data
   \<and> take (length (heap p)) (heap (snd (enrich_lead w u1 u2 u3 lead_data p))) = heap p
   \<and> (case fst (enrich_lead w u1 u2 u3 lead_data p) of
        Inr b \<Rightarrow> b = length (heap p) \<and> b \<noteq> lead_data
                 \<and> length (heap (snd (enrich_lead w u1 u2 u3 lead_data p))) = Suc (length (heap p))
      | Inl e \<Rightarrow> snd (enrich_lead w u1 u2 u3 lead_data p) = p)"
proof (cases "\<exists>d. deref p lead_data = PDict d")
  case True
  then obtain d where d: "deref p lead_data = PDict d" ..
  have a: "lead_data < length (heap p)"
    using deref_dict_range [OF d] by simp
  obtain v where "fst (enrich_lead w u1 u2 u3 lead_data p) = Inr (length (heap p))"
    and "heap (snd (enrich_lead w u1 u2 u3 lead_data p)) = heap p @ [v]"
    using enrich_lead_heap [OF d, of w u1 u2 u3] by blast
  then show ?thesis
    using a by (simp add: deref_def nth_append)
next
  case False
  then show ?thesis
    by (simp add: enrich_lead_not_dict)
qed

theorem enrich_lead_leaves_input_witness:
  "deref (snd (enrich_lead ark_world True True True 0 acme_pipeline)) 0 = PDict acme
   \<and> fst (enrich_lead ark_world True True True 0 acme_pipeline) = Inr 1
   \<and> deref (snd (enrich_lead ark_world True True True 0 acme_pipeline)) 1 \<noteq> PDict acme"
proof -
  have h1: "deref acme_pipeline 0 = PDict acme"
    by (simp add: acme_pipeline_def new_pipeline_def deref_def)
  have o: "enrich_lead ark_world True True True 0 acme_pipeline =
     (Inr 1,
      \<lparr>stats = \<lparr>total_enriched = 1, ai_ark_hits = 1, linkedin_hits = 0, ai_finder_hits = 0,
         failed = 0, total_cost = 0\<rparr>,
       ai_finder = new_finder (Some ''key'') ''claude-3-sonnet-20240229'',
       heap = [PDict acme,
               PDict (acme @ [(KStr ''email'', PStr ''jane@acme.com''),
                 (KStr ''enrichment_source'', PStr ''ai_ark''),
                 (KStr ''enrichment_cost'', PFloat 0)])],
       calls = [AIArk]\<rparr>)"
    using ark_world_run .
  show ?thesis
    using enrich_lead_leaves_input [of ark_world True True True 0 acme_pipeline]
    unfolding o by (simp add: deref_def acme_pipeline_def new_pipeline_def acme_def)
qed


















subsection \<open>Two runs on the same record\<close>

lemma ai_enrich_lead_cong:
  assumes "api_key f = api_key g" and "model f = model g"
  shows "fst (ai_enrich_lead f api) = fst (ai_enrich_lead g api)"
  using assms
  by (cases api)
    (auto simp: ai_enrich_lead_def call_claude_def Let_def estimate_cost_def
      split: sum.split pyval.split)

lemma in_stepD:
  assumes "in_step d a b l s l' s'"
  shows "the_dict (deref s a) = d" "the_dict (deref s' b) = d"
    "deref s (enriched l) = heap s ! enriched l"
    "deref s' (enriched l') = heap s ! enriched l"
    "source l = source l'" "cost l = cost l'" "no_source l = no_source l'"
    "enriched l < length (heap s)" "enriched l' < length (heap s')"
    "api_key (ai_finder s) = api_key (ai_finder s')"
    "model (ai_finder s) = model (ai_finder s')"
  using assms by (simp_all add: in_step_def the_dict_def deref_def no_source_def)

lemma in_step_write:
  assumes "in_step d a b l s l' s'"
    and "heap t = (heap s)[enriched l := v]" and "heap t' = (heap s')[enriched l' := v]"
    and "api_key (ai_finder t) = api_key (ai_finder t')"
    and "model (ai_finder t) = model (ai_finder t')"
    and "enriched k = enriched l" and "enriched k' = enriched l'"
    and "source k = source k'" and "cost k = cost k'"
  shows "in_step d a b k t k' t'"
  using assms by (simp add: in_step_def deref_def)

lemma in_step_same:
  assumes "in_step d a b l s l' s'"
    and "heap t = heap s" and "heap t' = heap s'"
    and "api_key (ai_finder t) = api_key (ai_finder t')"
    and "model (ai_finder t) = model (ai_finder t')"
  shows "in_step d a b l t l' t'"
  using assms by (simp add: in_step_def deref_def)

lemma in_step_ai_ark:
  assumes "in_step d a b l s l' s'"
  shows "in_step d a b (fst (try_ai_ark w u a l s)) (snd (try_ai_ark w u a l s))
           (fst (try_ai_ark w u b l' s')) (snd (try_ai_ark w u b l' s'))"
proof (cases "ark_payload w u d")
  case None
  show ?thesis
    using in_step_same [OF assms, of "snd (try_ai_ark w u a l s)" "snd (try_ai_ark w u b l' s')"] assms
    by (simp add: try_ai_ark_eq in_stepD [OF assms] None)
next
  case (Some x)
  show ?thesis
    using in_step_write [OF assms,
          where v = "PDict (dict_update (the_dict (heap s ! enriched l)) x)"
            and t = "snd (try_ai_ark w u a l s)" and t' = "snd (try_ai_ark w u b l' s')"
            and k = "fst (try_ai_ark w u a l s)" and k' = "fst (try_ai_ark w u b l' s')"]
    by (simp add: try_ai_ark_eq in_stepD [OF assms] Some)
qed

lemma in_step_linkedin:
  assumes "in_step d a b l s l' s'"
  shows "in_step d a b (fst (try_linkedin w u a l s)) (snd (try_linkedin w u a l s))
           (fst (try_linkedin w u b l' s')) (snd (try_linkedin w u b l' s'))"
proof (cases "no_source l'")
  case False
  show ?thesis
    using assms by (simp add: try_linkedin_eq in_stepD(7) [OF assms] False)
next
  case True
  show ?thesis
  proof (cases "linkedin_payload w u d")
    case None
    show ?thesis
      using in_step_same [OF assms, of "snd (try_linkedin w u a l s)" "snd (try_linkedin w u b l' s')"]
      by (simp add: try_linkedin_eq in_stepD [OF assms] None True)
  next
    case (Some x)
    show ?thesis
      using in_step_write [OF assms,
            where v = "PDict (dict_update (the_dict (heap s ! enriched l)) x)"
              and t = "snd (try_linkedin w u a l s)" and t' = "snd (try_linkedin w u b l' s')"
              and k = "fst (try_linkedin w u a l s)" and k' = "fst (try_linkedin w u b l' s')"]
      by (simp add: try_linkedin_eq in_stepD [OF assms] Some True)
  qed
qed

lemma in_step_ai_finder:
  assumes "in_step d a b l s l' s'"
  shows "in_step d a b (fst (try_ai_finder w u a l s)) (snd (try_ai_finder w u a l s))
           (fst (try_ai_finder w u b l' s')) (snd (try_ai_finder w u b l' s'))"
proof -
  note D = in_stepD [OF assms]
  have r: "enriched l < length (heap s)" and r': "enriched l' < length (heap s')"
    using D by simp_all
  define res where "res = ai_enrich_lead (ai_finder s) (claude w d)"
  define res' where "res' = ai_enrich_lead (ai_finder s') (claude w d)"
  have eq: "fst res' = fst res"
    unfolding res_def res'_def
    by (rule ai_enrich_lead_cong [symmetric]) (simp_all add: D)
  have fx: "api_key (snd res) = api_key (snd res')" "model (snd res) = model (snd res')"
    using ai_enrich_lead_fixed [of "ai_finder s" "claude w d"]
      ai_enrich_lead_fixed [of "ai_finder s'" "claude w d"] D
    by (simp_all add: res_def res'_def)
  define e where "e = the_dict (heap s ! enriched l)"
  show ?thesis
  proof (cases "no_source l' \<and> u")
    case False
    have "try_ai_finder w u a l s = (l, s)" "try_ai_finder w u b l' s' = (l', s')"
      using False D(7) by (auto simp: try_ai_finder_eq [OF r] try_ai_finder_eq [OF r'])
    then show ?thesis
      using assms by simp
  next
    case True
    then have T: "no_source l \<and> u" "no_source l' \<and> u"
      using D(7) by simp_all
    show ?thesis
    proof (cases "fst res")
      case (Inl x)
      then have "try_ai_finder w u a l s = (l, s\<lparr>ai_finder := snd res, calls := calls s @ [AIFinder]\<rparr>)"
        and "try_ai_finder w u b l' s' = (l', s'\<lparr>ai_finder := snd res', calls := calls s' @ [AIFinder]\<rparr>)"
        using T eq
        by (simp_all add: try_ai_finder_eq [OF r] try_ai_finder_eq [OF r'] Let_def D(1,2)
            res_def [symmetric] res'_def [symmetric])
      then show ?thesis
        using in_step_same [OF assms, of "s\<lparr>ai_finder := snd res, calls := calls s @ [AIFinder]\<rparr>"
            "s'\<lparr>ai_finder := snd res', calls := calls s' @ [AIFinder]\<rparr>"] fx
        by simp
    next
      case (Inr result)
      show ?thesis
      proof (cases "truthy (enriched_data result)")
        case False
        then have "try_ai_finder w u a l s = (l, s\<lparr>ai_finder := snd res, calls := calls s @ [AIFinder]\<rparr>)"
          and "try_ai_finder w u b l' s' = (l', s'\<lparr>ai_finder := snd res', calls := calls s' @ [AIFinder]\<rparr>)"
          using T eq Inr
          by (simp_all add: try_ai_finder_eq [OF r] try_ai_finder_eq [OF r'] Let_def D(1,2)
              res_def [symmetric] res'_def [symmetric])
        then show ?thesis
          using in_step_same [OF assms, of "s\<lparr>ai_finder := snd res, calls := calls s @ [AIFinder]\<rparr>"
              "s'\<lparr>ai_finder := snd res', calls := calls s' @ [AIFinder]\<rparr>"] fx
          by simp
      next
        case t: True
        define m where "m = py_update e (enriched_data result)"
        show ?thesis
        proof (cases "snd m")
          case (Some x)
          then have "try_ai_finder w u a l s =
              (l, s\<lparr>ai_finder := snd res, calls := calls s @ [AIFinder],
                    heap := (heap s)[enriched l := PDict (fst m)]\<rparr>)"
            and "try_ai_finder w u b l' s' =
              (l', s'\<lparr>ai_finder := snd res', calls := calls s' @ [AIFinder],
                    heap := (heap s')[enriched l' := PDict (fst m)]\<rparr>)"
            using T eq Inr t
            by (simp_all add: try_ai_finder_eq [OF r] try_ai_finder_eq [OF r'] Let_def D(1,2,3,4)
                res_def [symmetric] res'_def [symmetric] m_def e_def)
          then show ?thesis
            using in_step_write [OF assms, where v = "PDict (fst m)" and k = l and k' = l'
                and t = "s\<lparr>ai_finder := snd res, calls := calls s @ [AIFinder],
                    heap := (heap s)[enriched l := PDict (fst m)]\<rparr>"
                and t' = "s'\<lparr>ai_finder := snd res', calls := calls s' @ [AIFinder],
                    heap := (heap s')[enriched l' := PDict (fst m)]\<rparr>"] fx D
            by simp
        next
          case None
          define e' where "e' = dict_set (dict_set (dict_set (fst m)
                               ''alternate_emails'' (alternate_emails result))
                               ''alternate_companies'' (alternate_companies result))
                               ''ai_reasoning'' (summary result)"
          have "try_ai_finder w u a l s =
              (l\<lparr>source := Some ''ai_enriched'', cost := cost_usd result\<rparr>,
               s\<lparr>ai_finder := snd res, calls := calls s @ [AIFinder],
                 stats := (stats s)
                             \<lparr>ai_finder_hits := ai_finder_hits (stats s) + 1,
                              total_cost := total_cost (stats s) + cost_usd result\<rparr>,
                 heap := (heap s)[enriched l := PDict e']\<rparr>)"
            and "try_ai_finder w u b l' s' =
              (l'\<lparr>source := Some ''ai_enriched'', cost := cost_usd result\<rparr>,
               s'\<lparr>ai_finder := snd res', calls := calls s' @ [AIFinder],
                 stats := (stats s')
                             \<lparr>ai_finder_hits := ai_finder_hits (stats s') + 1,
                              total_cost := total_cost (stats s') + cost_usd result\<rparr>,
                 heap := (heap s')[enriched l' := PDict e']\<rparr>)"
            using T eq Inr t None
            by (simp_all add: try_ai_finder_eq [OF r] try_ai_finder_eq [OF r'] Let_def D(1,2,3,4)
                res_def [symmetric] res'_def [symmetric] m_def e_def e'_def)
          then show ?thesis
            using in_step_write [OF assms, where v = "PDict e'"
                and k = "l\<lparr>source := Some ''ai_enriched'', cost := cost_usd result\<rparr>"
                and k' = "l'\<lparr>source := Some ''ai_enriched'', cost := cost_usd result\<rparr>"
                and t = "s\<lparr>ai_finder := snd res, calls := calls s @ [AIFinder],
                 stats := (stats s)
                             \<lparr>ai_finder_hits := ai_finder_hits (stats s) + 1,
                              total_cost := total_cost (stats s) + cost_usd result\<rparr>,
                 heap := (heap s)[enriched l := PDict e']\<rparr>"
                and t' = "s'\<lparr>ai_finder := snd res', calls := calls s' @ [AIFinder],
                 stats := (stats s')
                             \<lparr>ai_finder_hits := ai_finder_hits (stats s') + 1,
                              total_cost := total_cost (stats s') + cost_usd result\<rparr>,
                 heap := (heap s')[enriched l' := PDict e']\<rparr>"] fx D
            by simp
        qed
      qed
    qed
  qed
qed

lemma in_step_track:
  assumes "in_step d a b l s l' s'"
  shows "heap (track_results l s) ! enriched l = heap (track_results l' s') ! enriched l'"
  using in_stepD [OF assms]
  by (simp add: track_results_eq)

lemma enrich_lead_outcome_cong:
  assumes "deref p a = PDict d" and "deref q b = PDict d"
    and "api_key (ai_finder p) = api_key (ai_finder q)"
    and "model (ai_finder p) = model (ai_finder q)"
  shows "deref (snd (enrich_lead w u1 u2 u3 a p)) (length (heap p))
       = deref (snd (enrich_lead w u1 u2 u3 b q)) (length (heap q))"
proof -
  have a: "a < length (heap p)" "heap p ! a = PDict d"
    using deref_dict_range [OF assms(1)] by simp_all
  have b: "b < length (heap q)" "heap q ! b = PDict d"
    using deref_dict_range [OF assms(2)] by simp_all
  define p0 where "p0 = p\<lparr>heap := heap p @ [PDict d]\<rparr>"
  define q0 where "q0 = q\<lparr>heap := heap q @ [PDict d]\<rparr>"
  define l0 where "l0 = \<lparr>enriched = length (heap p), source = None, cost = 0\<rparr>"
  define k0 where "k0 = \<lparr>enriched = length (heap q), source = None, cost = 0\<rparr>"
  define s1 where "s1 = try_ai_ark w u1 a l0 p0"
  define s2 where "s2 = try_linkedin w u2 a (fst s1) (snd s1)"
  define s3 where "s3 = try_ai_finder w u3 a (fst s2) (snd s2)"
  define t1 where "t1 = try_ai_ark w u1 b k0 q0"
  define t2 where "t2 = try_linkedin w u2 b (fst t1) (snd t1)"
  define t3 where "t3 = try_ai_finder w u3 b (fst t2) (snd t2)"
  have i0: "in_step d a b l0 p0 k0 q0"
    using a b assms(3,4) by (simp add: in_step_def l0_def k0_def p0_def q0_def nth_append)
  have i1: "in_step d a b (fst s1) (snd s1) (fst t1) (snd t1)"
    unfolding s1_def t1_def by (rule in_step_ai_ark [OF i0])
  have i2: "in_step d a b (fst s2) (snd s2) (fst t2) (snd t2)"
    unfolding s2_def t2_def by (rule in_step_linkedin [OF i1])
  have i3: "in_step d a b (fst s3) (snd s3) (fst t3) (snd t3)"
    unfolding s3_def t3_def by (rule in_step_ai_finder [OF i2])
  have es: "enriched (fst s3) = length (heap p)"
    using try_ai_ark_frame [of w u1 a l0 p0] try_linkedin_frame [of w u2 a "fst s1" "snd s1"]
      try_ai_finder_frame [of w u3 a "fst s2" "snd s2"]
    by (simp add: s3_def s2_def s1_def l0_def)
  have et: "enriched (fst t3) = length (heap q)"
    using try_ai_ark_frame [of w u1 b k0 q0] try_linkedin_frame [of w u2 b "fst t1" "snd t1"]
      try_ai_finder_frame [of w u3 b "fst t2" "snd t2"]
    by (simp add: t3_def t2_def t1_def k0_def)
  have rs: "enrich_lead w u1 u2 u3 a p = (Inr (enriched (fst s3)), track_results (fst s3) (snd s3))"
    by (simp add: enrich_lead_dict [OF assms(1)] Let_def s3_def s2_def s1_def l0_def p0_def)
  have rt: "enrich_lead w u1 u2 u3 b q = (Inr (enriched (fst t3)), track_results (fst t3) (snd t3))"
    by (simp add: enrich_lead_dict [OF assms(2)] Let_def t3_def t2_def t1_def k0_def q0_def)
  have ls: "length (heap (track_results (fst s3) (snd s3))) = Suc (length (heap p))"
    using enrich_lead_heap [OF assms(1), of w u1 u2 u3] by (auto simp: rs)
  have lt: "length (heap (track_results (fst t3) (snd t3))) = Suc (length (heap q))"
    using enrich_lead_heap [OF assms(2), of w u1 u2 u3] by (auto simp: rt)
  show ?thesis
    using in_step_track [OF i3] by (simp add: rs rt deref_def ls lt es et)
qed

lemma outcome_eq:
  assumes "deref p a = PDict d"
  shows "outcome w p a = deref (snd (enrich_lead w True True True a p)) (length (heap p))"
  using enrich_lead_heap [OF assms, of w True True True]
  by (auto simp: outcome_def split: prod.split sum.split)

subsection \<open>The batch\<close>

lemma batch_invD:
  assumes "batch_inv w p leads done slots q"
  shows "length slots = length leads"
    and "length (heap p) \<le> length (heap q)"
    and "take (length (heap p)) (heap q) = heap p"
    and "api_key (ai_finder q) = api_key (ai_finder p)"
    and "model (ai_finder q) = model (ai_finder p)"
    and "\<And>j. j < length leads \<Longrightarrow> j \<in> done \<Longrightarrow>
           \<exists>b. slots ! j = Some b \<and> b < length (heap q) \<and> heap q ! b = outcome w p (leads ! j)"
    and "\<And>j. j < length leads \<Longrightarrow> j \<notin> done \<Longrightarrow> slots ! j = None"
proof -
  have all: "\<forall>i < length leads.
            if i \<in> done
            then \<exists>b. slots ! i = Some b \<and> b < length (heap q)
                   \<and> heap q ! b = outcome w p (leads ! i)
            else slots ! i = None"
    using assms unfolding batch_inv_def by (elim conjE)
  show "length slots = length leads" "length (heap p) \<le> length (heap q)"
    "take (length (heap p)) (heap q) = heap p"
    "api_key (ai_finder q) = api_key (ai_finder p)"
    "model (ai_finder q) = model (ai_finder p)"
    using assms unfolding batch_inv_def by blast+
  show "\<exists>b. slots ! j = Some b \<and> b < length (heap q) \<and> heap q ! b = outcome w p (leads ! j)"
    if "j < length leads" "j \<in> done" for j
    using all [rule_format, OF that(1)] that(2) by (simp only: if_True)
  show "slots ! j = None" if "j < length leads" "j \<notin> done" for j
    using all [rule_format, OF that(1)] that(2) by (simp only: if_False)
qed

lemma batch_invI:
  assumes "length slots = length leads"
    and "length (heap p) \<le> length (heap q)"
    and "take (length (heap p)) (heap q) = heap p"
    and "api_key (ai_finder q) = api_key (ai_finder p)"
    and "model (ai_finder q) = model (ai_finder p)"
    and "\<And>j. j < length leads \<Longrightarrow> j \<in> done \<Longrightarrow>
           \<exists>b. slots ! j = Some b \<and> b < length (heap q) \<and> heap q ! b = outcome w p (leads ! j)"
    and "\<And>j. j < length leads \<Longrightarrow> j \<notin> done \<Longrightarrow> slots ! j = None"
  shows "batch_inv w p leads done slots q"
  unfolding batch_inv_def
proof (intro conjI allI impI)
  fix i assume "i < length leads"
  then show "if i \<in> done
            then \<exists>b. slots ! i = Some b \<and> b < length (heap q)
                   \<and> heap q ! b = outcome w p (leads ! i)
            else slots ! i = None"
    using assms(6) [of i] assms(7) [of i] by (cases "i \<in> done") simp_all
qed (fact assms)+

lemma batch_inv_deref:
  assumes "batch_inv w p leads done slots q" and "a < length (heap p)"
  shows "deref q a = deref p a"
proof -
  have "take (length (heap p)) (heap q) ! a = heap p ! a"
    using batch_invD(3) [OF assms(1)] by simp
  then show ?thesis
    using assms(2) batch_invD(2) [OF assms(1)] by (simp add: deref_def)
qed

lemma batch_inv_step:
  assumes inv: "batch_inv w p leads done slots q"
    and i: "i < length leads" "slots ! i = None"
    and a: "leads ! i < length (heap p)"
    and d: "deref p (leads ! i) = PDict d"
  shows "\<exists>q'. enrich_lead w True True True (leads ! i) q = (Inr (length (heap q)), q')
     \<and> batch_inv w p leads (insert i done) (slots[i := Some (length (heap q))]) q'"
proof -
  note I = batch_invD [OF inv]
  have dq: "deref q (leads ! i) = PDict d"
    using batch_inv_deref [OF inv a] d by simp
  define q' where "q' = snd (enrich_lead w True True True (leads ! i) q)"
  obtain v where r: "fst (enrich_lead w True True True (leads ! i) q) = Inr (length (heap q))"
    and h: "heap q' = heap q @ [v]"
    and k: "api_key (ai_finder q') = api_key (ai_finder q)"
       "model (ai_finder q') = model (ai_finder q)"
    using enrich_lead_heap [OF dq, of w True True True] unfolding q'_def by blast
  have "deref q' (length (heap q)) = deref (snd (enrich_lead w True True True (leads ! i) p)) (length (heap p))"
    unfolding q'_def
    by (rule enrich_lead_outcome_cong [OF dq d I(4) I(5)])
  then have v: "v = outcome w p (leads ! i)"
    using h by (simp add: outcome_eq [OF d] deref_def)
  have "batch_inv w p leads (insert i done) (slots[i := Some (length (heap q))]) q'"
  proof (rule batch_invI)
    show "length (slots[i := Some (length (heap q))]) = length leads"
      using I(1) by simp
    show "length (heap p) \<le> length (heap q')"
      using I(2) h by simp
    show "take (length (heap p)) (heap q') = heap p"
      using I(2,3) h by simp
    show "api_key (ai_finder q') = api_key (ai_finder p)"
      using k I(4) by simp
    show "model (ai_finder q') = model (ai_finder p)"
      using k I(5) by simp
  next
    fix j assume j: "j < length leads" "j \<in> insert i done"
    show "\<exists>b. slots[i := Some (length (heap q))] ! j = Some b \<and> b < length (heap q')
              \<and> heap q' ! b = outcome w p (leads ! j)"
    proof (cases "j = i")
      case True
      then show ?thesis
        using i(1) I(1) h v by simp
    next
      case False
      then have "j \<in> done"
        using j(2) by simp
      from I(6) [OF j(1) this] obtain b where
        b: "slots ! j = Some b" "b < length (heap q)" "heap q ! b = outcome w p (leads ! j)"
        by blast
      have "slots[i := Some (length (heap q))] ! j = Some b"
        using False b(1) by simp
      moreover have "b < length (heap q')" "heap q' ! b = outcome w p (leads ! j)"
        using b(2,3) h by (simp_all add: nth_append)
      ultimately show ?thesis
        by blast
    qed
  next
    fix j assume j: "j < length leads" "j \<notin> insert i done"
    then have "j \<noteq> i" "j \<notin> done"
      by simp_all
    then show "slots[i := Some (length (heap q))] ! j = None"
      using I(7) [OF j(1)] by simp
  qed
  moreover have "enrich_lead w True True True (leads ! i) q = (Inr (length (heap q)), q')"
    using r unfolding q'_def by (simp add: prod_eq_iff)
  ultimately show ?thesis
    by blast
qed

lemma run_tasks_returns:
  assumes leads: "\<forall>a \<in> set leads. a < length (heap p) \<and> (\<exists>d. deref p a = PDict d)"
    and inv: "batch_inv w p leads fin slots q"
  shows "\<exists>slots' q'. run_tasks w leads schedule slots q = (Inr slots', q')
      \<and> batch_inv w p leads (fin \<union> (set schedule \<inter> {..<length leads})) slots' q'"
  using inv
proof (induction schedule arbitrary: fin slots q)
  case Nil
  then show ?case by simp
next
  case (Cons i schedule)
  show ?case
  proof (cases "i < length leads \<and> slots ! i = None")
    case True
    then have m: "leads ! i \<in> set leads"
      by simp
    obtain d where a: "leads ! i < length (heap p)" and d: "deref p (leads ! i) = PDict d"
      using leads m by blast
    obtain q' where r: "enrich_lead w True True True (leads ! i) q = (Inr (length (heap q)), q')"
      and inv': "batch_inv w p leads (insert i fin) (slots[i := Some (length (heap q))]) q'"
      using batch_inv_step [OF Cons.prems conjunct1 [OF True] conjunct2 [OF True] a d] by (elim exE conjE)
    have s: "insert i fin \<union> (set schedule \<inter> {..<length leads})
        = fin \<union> (set (i # schedule) \<inter> {..<length leads})"
      using True by auto
    from Cons.IH [OF inv'] obtain slots' q'' where
      rt: "run_tasks w leads schedule (slots[i := Some (length (heap q))]) q' = (Inr slots', q'')"
      and bi: "batch_inv w p leads (insert i fin \<union> (set schedule \<inter> {..<length leads})) slots' q''"
      by blast
    have bi': "batch_inv w p leads (fin \<union> (set (i # schedule) \<inter> {..<length leads})) slots' q''"
      using bi unfolding s .
    have "run_tasks w leads (i # schedule) slots q = (Inr slots', q'')"
      using True r rt by simp
    then show ?thesis
      using bi' by blast
  next
    case False
    have "i < length leads \<Longrightarrow> i \<in> fin"
      using False batch_invD(7) [OF Cons.prems, of i] by blast
    then have s: "fin \<union> (set schedule \<inter> {..<length leads})
        = fin \<union> (set (i # schedule) \<inter> {..<length leads})"
      by auto
    from Cons.IH [OF Cons.prems] obtain slots' q'' where
      rt: "run_tasks w leads schedule slots q = (Inr slots', q'')"
      and bi: "batch_inv w p leads (fin \<union> (set schedule \<inter> {..<length leads})) slots' q''"
      by blast
    have bi': "batch_inv w p leads (fin \<union> (set (i # schedule) \<inter> {..<length leads})) slots' q''"
      using bi unfolding s .
    have "run_tasks w leads (i # schedule) slots q = (Inr slots', q'')"
      using False rt by auto
    then show ?thesis
      using bi' by blast
  qed
qed

lemma run_tasks_raises:
  assumes leads: "\<forall>a \<in> set leads. a < length (heap p)"
    and inv: "batch_inv w p leads fin slots q"
    and bad: "j \<in> set schedule" "j < length leads" "j \<notin> fin"
      "\<And>d. deref p (leads ! j) \<noteq> PDict d"
  shows "\<exists>q'. run_tasks w leads schedule slots q
           = (Inl (Exn AttributeError ''object has no attribute get''), q')"
  using inv bad(1,3)
proof (induction schedule arbitrary: fin slots q)
  case Nil
  then show ?case by simp
next
  case (Cons i schedule)
  show ?case
  proof (cases "i < length leads \<and> slots ! i = None")
    case True
    then have m: "leads ! i \<in> set leads"
      by simp
    then have a: "leads ! i < length (heap p)"
      using leads by blast
    show ?thesis
    proof (cases "\<exists>d. deref p (leads ! i) = PDict d")
      case dict: True
      then obtain d where d: "deref p (leads ! i) = PDict d" ..
      obtain q' where r: "enrich_lead w True True True (leads ! i) q = (Inr (length (heap q)), q')"
        and inv': "batch_inv w p leads (insert i fin) (slots[i := Some (length (heap q))]) q'"
        using batch_inv_step [OF Cons.prems(1) conjunct1 [OF True] conjunct2 [OF True] a d] by (elim exE conjE)
      have ji: "j \<noteq> i"
        using d bad(4) by auto
      then have "j \<in> set schedule" "j \<notin> insert i fin"
        using Cons.prems(2,3) by simp_all
      from Cons.IH [OF inv' this] show ?thesis
        using True r by simp
    next
      case False
      then have "\<And>d. deref q (leads ! i) \<noteq> PDict d"
        using batch_inv_deref [OF Cons.prems(1) a] by simp
      then show ?thesis
        using True by (simp add: enrich_lead_not_dict)
    qed
  next
    case False
    have "slots ! j = None"
      using batch_invD(7) [OF Cons.prems(1) bad(2) Cons.prems(3)] .
    then have "j \<noteq> i"
      using False bad(2) by auto
    then have "j \<in> set schedule"
      using Cons.prems(2) by simp
    from Cons.IH [OF Cons.prems(1) this Cons.prems(3)] show ?thesis
      using False by auto
  qed
qed

lemma batch_inv_start: "batch_inv w p leads {} (replicate (length leads) None) p"
  by (rule batch_invI) simp_all

lemma batch_returns:
  assumes "1 \<le> concurrency"
    and "set schedule = {..<length leads}"
    and "\<forall>a \<in> set leads. \<exists>d. deref p a = PDict d"
  shows "\<exists>outs p'. enrich_leads_batch w leads concurrency schedule p = Some (Inr outs, p')
     \<and> length outs = length leads
     \<and> (\<forall>i < length leads. deref p' (outs ! i) = outcome w p (leads ! i))
     \<and> (\<forall>a \<in> set leads. deref p' a = deref p a)"
proof (cases "leads = []")
  case True
  then show ?thesis
    using assms(1) by (simp add: enrich_leads_batch_def)
next
  case False
  have l: "\<forall>a \<in> set leads. a < length (heap p) \<and> (\<exists>d. deref p a = PDict d)"
    using assms(3) deref_dict_range by blast
  obtain slots' q' where
    rt: "run_tasks w leads schedule (replicate (length leads) None) p = (Inr slots', q')"
    and bi: "batch_inv w p leads ({} \<union> (set schedule \<inter> {..<length leads})) slots' q'"
    using run_tasks_returns [OF l batch_inv_start, of w schedule] by blast
  have bi': "batch_inv w p leads {..<length leads} slots' q'"
    using bi by (simp add: assms(2))
  note I = batch_invD [OF bi']
  have some: "\<exists>b. slots' ! i = Some b \<and> b < length (heap q') \<and> heap q' ! b = outcome w p (leads ! i)"
    if "i < length leads" for i
    using I(6) [OF that] that by simp
  have full: "list_all (\<lambda>s. s \<noteq> None) slots'"
    unfolding list_all_length using some I(1) by auto
  have r: "enrich_leads_batch w leads concurrency schedule p = Some (Inr (map the slots'), q')"
    using False assms(1) rt full by (simp add: enrich_leads_batch_def)
  have o: "deref q' (map the slots' ! i) = outcome w p (leads ! i)" if "i < length leads" for i
    using some [OF that] that I(1) by (auto simp: deref_def)
  have f: "deref q' a = deref p a" if "a \<in> set leads" for a
    using batch_inv_deref [OF bi'] l that by blast
  show ?thesis
    using r o f I(1) by simp
qed

lemma batch_raises:
  assumes "1 \<le> concurrency"
    and "set schedule = {..<length leads}"
    and "\<forall>a \<in> set leads. a < length (heap p)"
    and "\<exists>a \<in> set leads. \<forall>d. deref p a \<noteq> PDict d"
  shows "\<exists>p'. enrich_leads_batch w leads concurrency schedule p
           = Some (Inl (Exn AttributeError ''object has no attribute get''), p')"
proof -
  obtain j where j: "j < length leads" "\<And>d. deref p (leads ! j) \<noteq> PDict d"
    using assms(4) by (auto simp: in_set_conv_nth)
  have js: "j \<in> set schedule"
    using j(1) assms(2) by simp
  have ne: "leads \<noteq> []"
    using j(1) by auto
  obtain q' where "run_tasks w leads schedule (replicate (length leads) None) p
           = (Inl (Exn AttributeError ''object has no attribute get''), q')"
    using run_tasks_raises [OF assms(3) batch_inv_start js j(1) _ j(2), of w] by auto
  then show ?thesis
    using ne assms(1) by (simp add: enrich_leads_batch_def)
qed

lemma mixed_pipeline_store:
  "deref mixed_pipeline 0 = PDict acme"
  "deref mixed_pipeline (Suc 0) = PNone"
  "deref mixed_pipeline 2 = PDict [(KStr ''first_name'', PStr ''Jane'')]"
  "length (heap mixed_pipeline) = 3"
  by (simp_all add: mixed_pipeline_def new_pipeline_def deref_def)

lemma mixed_outcome_acme:
  "outcome ark_world mixed_pipeline 0 =
     PDict (acme @ [(KStr ''email'', PStr ''jane@acme.com''),
       (KStr ''enrichment_source'', PStr ''ai_ark''), (KStr ''enrichment_cost'', PFloat 0)])"
proof -
  have h2: "ark_eligible True acme"
    by (simp add: ark_eligible_def acme_def dict_get_def dict_get_or_def py_or_def)
  have h3: "ark_open ark_world = None"
    by (simp add: ark_world_def)
  have "snd (enrich_lead ark_world True True True 0 mixed_pipeline) =
      mixed_pipeline\<lparr>stats := (stats mixed_pipeline)
           \<lparr>total_enriched := total_enriched (stats mixed_pipeline) + 1,
            ai_ark_hits := ai_ark_hits (stats mixed_pipeline) + 1\<rparr>,
         heap := heap mixed_pipeline @
           [PDict (dict_set (dict_set (dict_update acme [(KStr ''email'', PStr ''jane@acme.com'')])
              ''enrichment_source'' (PStr ''ai_ark''))
              ''enrichment_cost'' (PFloat 0))],
         calls := calls mixed_pipeline @ [AIArk]\<rparr>"
    using ai_ark_hit_outcome [OF mixed_pipeline_store(1) h2 h3 ark_world_call, of True True]
    by simp
  then show ?thesis
    by (simp add: outcome_eq [OF mixed_pipeline_store(1)] deref_def mixed_pipeline_store(4)
        nth_append acme_def dict_set_def dict_update_def)
qed

lemma mixed_outcome_jane:
  "outcome ark_world mixed_pipeline 2 =
     PDict [(KStr ''first_name'', PStr ''Jane''), (KStr ''enrichment_source'', PNone)]"
proof -
  have m1: "ark_eligible True [(KStr ''first_name'', PStr ''Jane'')] \<longrightarrow>
      ark_misses ark_world [(KStr ''first_name'', PStr ''Jane'')]"
    by (simp add: ark_eligible_def dict_get_def dict_get_or_def py_or_def)
  have m2: "linkedin_eligible True [(KStr ''first_name'', PStr ''Jane'')] \<longrightarrow>
      linkedin_misses ark_world [(KStr ''first_name'', PStr ''Jane'')]"
    by (simp add: linkedin_eligible_def dict_get_def dict_get_or_def)
  have m3: "True \<longrightarrow> ai_finder_misses ark_world (ai_finder mixed_pipeline)
      [(KStr ''first_name'', PStr ''Jane'')]"
    by (simp add: ai_finder_misses_def ai_call_def ai_enrich_lead_def call_claude_def
        ark_world_def mixed_pipeline_def new_pipeline_def new_finder_def)
  show ?thesis
    using all_miss_outcome [OF mixed_pipeline_store(3) m1 m2 m3]
    by (simp add: outcome_eq [OF mixed_pipeline_store(3)] deref_def mixed_pipeline_store(4)
        nth_append dict_set_def)
qed

text \<open>
  C5, as stated, fails for the concurrency bounds below 1: with the bound \<open>0\<close> no task
  ever gets the semaphore and a batch of one record never returns; with a negative bound
  the construction of the semaphore raises \<open>ValueError\<close>.
\<close>

theorem batch_concurrency_counterexample:
  "enrich_leads_batch ark_world [0] 0 [0] acme_pipeline = None
   \<and> enrich_leads_batch ark_world [0] (- 1) [0] acme_pipeline
       = Some (Inl (Exn ValueError ''Semaphore initial value must be >= 0''), acme_pipeline)"
  by (simp add: enrich_leads_batch_def)

text \<open>
  C5, amended. For every list of records (dictionaries of the store) and every
  concurrency bound of at least 1, whatever the order in which the tasks complete,
  \<open>enrich_leads_batch\<close> returns as many outcomes as there are records, and the outcome at
  each position is the outcome of enriching the record at that position. The input
  records are unchanged.
\<close>

theorem enrich_leads_batch_in_order:
  assumes "1 \<le> concurrency"
    and "set schedule = {..<length leads}"
    and "\<forall>a \<in> set leads. \<exists>d. deref p a = PDict d"
  shows "\<exists>outs p'. enrich_leads_batch w leads concurrency schedule p = Some (Inr outs, p')
     \<and> length outs = length leads
     \<and> (\<forall>i < length leads. deref p' (outs ! i) = outcome w p (leads ! i))
     \<and> (\<forall>a \<in> set leads. deref p' a = deref p a)"
  using batch_returns [OF assms] .

theorem enrich_leads_batch_in_order_witness:
  "\<exists>outs p'. enrich_leads_batch ark_world [0, 2] 2 [1, 0] mixed_pipeline = Some (Inr outs, p')
     \<and> length outs = 2
     \<and> deref p' (outs ! 0) =
         PDict (acme @ [(KStr ''email'', PStr ''jane@acme.com''),
           (KStr ''enrichment_source'', PStr ''ai_ark''), (KStr ''enrichment_cost'', PFloat 0)])
     \<and> deref p' (outs ! 1) =
         PDict [(KStr ''first_name'', PStr ''Jane''), (KStr ''enrichment_source'', PNone)]"
proof -
  have h1: "(1::int) \<le> 2"
    by simp
  have h2: "set [1, 0] = {..<length [0::nat, 2]}"
    by auto
  have h3: "\<forall>a \<in> set [0, 2]. \<exists>d. deref mixed_pipeline a = PDict d"
    by (simp add: mixed_pipeline_store)
  obtain outs p' where
    r: "enrich_leads_batch ark_world [0, 2] 2 [1, 0] mixed_pipeline = Some (Inr outs, p')"
    and n: "length outs = length [0::nat, 2]"
    and o: "\<forall>i < length [0::nat, 2]. deref p' (outs ! i) = outcome ark_world mixed_pipeline ([0, 2] ! i)"
    using enrich_leads_batch_in_order [OF h1 h2 h3, of ark_world] by blast
  have "deref p' (outs ! 0) = outcome ark_world mixed_pipeline 0"
    and "deref p' (outs ! 1) = outcome ark_world mixed_pipeline 2"
    using o [rule_format, of 0] o [rule_format, of 1] by simp_all
  then show ?thesis
    using r n by (simp add: mixed_outcome_acme mixed_outcome_jane)
qed

text \<open>
  C4, as stated, fails: \<open>enrich_leads_batch\<close> has no handler around a record's
  orchestration. In a batch of three stored objects of which the second is \<open>None\<close>,
  run in order, the first record is enriched, the orchestration of the second raises
  \<open>AttributeError\<close>, and that exception is what the caller of the batch gets: no list of
  outcomes is returned, and no failed outcome stands in for the second record.
\<close>

theorem batch_exception_counterexample:
  "deref mixed_pipeline 1 = PNone
   \<and> map_option fst (enrich_leads_batch ark_world [0, 1, 2] 5 [0, 1, 2] mixed_pipeline)
       = Some (Inl (Exn AttributeError ''object has no attribute get''))"
proof -
  have h1: "(1::int) \<le> 5"
    by simp
  have h2: "set [0, 1, 2] = {..<length [0::nat, 1, 2]}"
    by auto
  have h3: "\<forall>a \<in> set [0, 1, 2]. a < length (heap mixed_pipeline)"
    by (simp add: mixed_pipeline_store)
  have h4: "\<exists>a \<in> set [0, 1, 2]. \<forall>d. deref mixed_pipeline a \<noteq> PDict d"
    by (simp add: mixed_pipeline_store)
  show ?thesis
    using batch_raises [OF h1 h2 h3 h4, of ark_world]
    by (auto simp: mixed_pipeline_store)
qed

text \<open>
  C4, amended. \<open>enrich_leads_batch\<close> does not convert an exception of one record's
  orchestration into a failed outcome: \<open>asyncio.gather\<close> raises it to the caller of the
  batch. For a batch of stored objects, a concurrency bound of at least 1 and every
  order of completion: when every element is a dictionary no orchestration raises (the
  failures of the sources are caught inside \<open>enrich_lead\<close>) and the batch returns one
  outcome per record; when some element is not a dictionary, the \<open>AttributeError\<close> of
  its orchestration leaves \<open>enrich_leads_batch\<close> and no outcome is returned.
\<close>

theorem enrich_leads_batch_propagates:
  assumes "1 \<le> concurrency"
    and "set schedule = {..<length leads}"
    and "\<forall>a \<in> set leads. a < length (heap p)"
  shows "((\<forall>a \<in> set leads. \<exists>d. deref p a = PDict d) \<longrightarrow>
            (\<exists>outs p'. enrich_leads_batch w leads concurrency schedule p = Some (Inr outs, p')
               \<and> length outs = length leads))
       \<and> ((\<exists>a \<in> set leads. \<forall>d. deref p a \<noteq> PDict d) \<longrightarrow>
            (\<exists>p'. enrich_leads_batch w leads concurrency schedule p
                 = Some (Inl (Exn AttributeError ''object has no attribute get''), p')))"
proof (intro conjI impI)
  assume "\<forall>a \<in> set leads. \<exists>d. deref p a = PDict d"
  from batch_returns [OF assms(1,2) this, of w]
  show "\<exists>outs p'. enrich_leads_batch w leads concurrency schedule p = Some (Inr outs, p')
               \<and> length outs = length leads"
    by blast
next
  assume "\<exists>a \<in> set leads. \<forall>d. deref p a \<noteq> PDict d"
  from batch_raises [OF assms this]
  show "\<exists>p'. enrich_leads_batch w leads concurrency schedule p
                 = Some (Inl (Exn AttributeError ''object has no attribute get''), p')" .
qed

theorem enrich_leads_batch_propagates_witness:
  "map_option fst (enrich_leads_batch ark_world [0, 1, 2] 5 [2, 1, 0] mixed_pipeline)
       = Some (Inl (Exn AttributeError ''object has no attribute get''))
   \<and> (\<exists>outs p'. enrich_leads_batch ark_world [0, 2] 5 [1, 0] mixed_pipeline = Some (Inr outs, p')
         \<and> length outs = 2)"
proof -
  have h1: "(1::int) \<le> 5"
    by simp
  have h2: "set [2, 1, 0] = {..<length [0::nat, 1, 2]}"
    by auto
  have h3: "\<forall>a \<in> set [0, 1, 2]. a < length (heap mixed_pipeline)"
    by (simp add: mixed_pipeline_store)
  have g2: "set [1, 0] = {..<length [0::nat, 2]}"
    by auto
  have g3: "\<forall>a \<in> set [0, 2]. a < length (heap mixed_pipeline)"
    by (simp add: mixed_pipeline_store)
  show ?thesis
    using enrich_leads_batch_propagates [OF h1 h2 h3, of ark_world]
      enrich_leads_batch_propagates [OF h1 g2 g3, of ark_world]
    by (auto simp: mixed_pipeline_store)
qed

end
